theory Spec2Isabelle
  imports Complex_Main "HOL-Library.Word"
begin

section \<open>pclmtoraster: the duplex policy of parseOpts\<close>

text \<open>
  The filter keeps its configuration in file-level variables. The four swap flags
  (\<open>swap_image_x\<close>, \<open>swap_image_y\<close>, \<open>swap_margin_x\<close>, \<open>swap_margin_y\<close>) start as
  \<open>false\<close> and are assigned by the duplex block of \<open>parseOpts\<close>.
\<close>

record swap_state =
  swap_image_x :: bool
  swap_image_y :: bool
  swap_margin_x :: bool
  swap_margin_y :: bool

definition init_swap :: swap_state where
  "init_swap = \<lparr>swap_image_x = False, swap_image_y = False,
                 swap_margin_x = False, swap_margin_y = False\<rparr>"

text \<open>
  What the duplex block reads of the PPD: the values of the attributes \<open>cupsBackSide\<close> and
  \<open>APDuplexRequiresFlippedMargin\<close> (\<open>None\<close> when \<open>ppdFindAttr\<close> finds no attribute or the
  attribute has no value) and the legacy field \<open>flip_duplex\<close>.
\<close>

record ppd_file_t =
  cupsBackSide :: "string option"
  APDuplexRequiresFlippedMargin :: "string option"
  flip_duplex :: bool

datatype flipped_margin = FM_NO | FM_FALSE | FM_TRUE

text \<open>
  \<open>strcasecmp\<close> of the C library in the C locale: both strings are compared byte by byte
  after mapping \<open>A\<close>..\<open>Z\<close> to lower case; the result is the difference of the first pair of
  bytes that differ, and 0 when there is none.
\<close>

definition tolower_c :: "char \<Rightarrow> char" where
  "tolower_c c =
     (let n = (of_char c :: nat) in if 65 \<le> n \<and> n \<le> 90 then char_of (n + 32) else c)"

fun strcasecmp :: "string \<Rightarrow> string \<Rightarrow> int" where
  "strcasecmp [] [] = 0"
| "strcasecmp [] (b # bs) = - int (of_char (tolower_c b))"
| "strcasecmp (a # as) [] = int (of_char (tolower_c a))"
| "strcasecmp (a # as) (b # bs) =
     (if tolower_c a = tolower_c b then strcasecmp as bs
      else int (of_char (tolower_c a)) - int (of_char (tolower_c b)))"

text \<open>
  The local \<open>backside\<close> of the block: the attribute's value when there is one, otherwise
  \<open>"Rotated"\<close> when the PPD has \<open>flip_duplex\<close> set, otherwise the empty string. (The block
  also clears \<open>ppd->flip_duplex\<close> when the attribute is there; nothing reads the field
  afterwards.)
\<close>

definition backside_of :: "ppd_file_t \<Rightarrow> string" where
  "backside_of ppd =
     (case cupsBackSide ppd of
        Some v \<Rightarrow> v
      | None \<Rightarrow> if flip_duplex ppd then ''Rotated'' else '''')"

definition flippedMargin_of :: "ppd_file_t \<Rightarrow> flipped_margin" where
  "flippedMargin_of ppd =
     (case APDuplexRequiresFlippedMargin ppd of
        None \<Rightarrow> FM_NO
      | Some v \<Rightarrow> if strcasecmp v ''true'' = 0 then FM_TRUE else FM_FALSE)"

text \<open>
  The chain of assignments of the block, on the flags as they are when it is entered.
\<close>

definition duplex_assign ::
  "string \<Rightarrow> bool \<Rightarrow> flipped_margin \<Rightarrow> 'a swap_state_scheme \<Rightarrow> 'a swap_state_scheme" where
  "duplex_assign backside tumble flippedMargin s =
     (if strcasecmp backside ''ManualTumble'' = 0 \<and> tumble then
        (let s1 = s\<lparr>swap_image_y := True, swap_image_x := True\<rparr>;
             s2 = s1\<lparr>swap_margin_y := True, swap_margin_x := True\<rparr>
         in if flippedMargin = FM_TRUE then s2\<lparr>swap_margin_y := False\<rparr> else s2)
      else if strcasecmp backside ''Rotated'' = 0 \<and> \<not> tumble then
        (let s1 = s\<lparr>swap_image_y := True, swap_image_x := True\<rparr>;
             s2 = s1\<lparr>swap_margin_y := True, swap_margin_x := True\<rparr>
         in if flippedMargin = FM_TRUE then s2\<lparr>swap_margin_y := False\<rparr> else s2)
      else if strcasecmp backside ''Flipped'' = 0 then
        (let s1 = (if tumble
                   then s\<lparr>swap_image_x := True, swap_margin_y := True, swap_margin_x := True\<rparr>
                   else s\<lparr>swap_image_y := True\<rparr>)
         in if flippedMargin = FM_FALSE
            then s1\<lparr>swap_margin_y := \<not> swap_margin_y s1\<rparr> else s1)
      else s)"

text \<open>
  The block runs only with a PPD (\<open>Some ppd\<close>) and with \<open>header.Duplex\<close> set; \<open>parseOpts\<close>
  is called once, on the initial flags.
\<close>

definition parseOpts_duplex ::
  "ppd_file_t option \<Rightarrow> bool \<Rightarrow> bool \<Rightarrow> 'a swap_state_scheme \<Rightarrow> 'a swap_state_scheme" where
  "parseOpts_duplex ppd Duplex Tumble s =
     (case ppd of
        None \<Rightarrow> s
      | Some p \<Rightarrow>
          if Duplex then duplex_assign (backside_of p) Tumble (flippedMargin_of p) s else s)"


section \<open>Machine integers, results and buffers\<close>

text \<open>
  \<open>unsigned int\<close> is 32 bits wide: unsigned arithmetic is arithmetic modulo \<open>2^32\<close>, so an
  unsigned expression is its integer value reduced once by \<open>u32\<close>. \<open>s32\<close> is the conversion
  to \<open>int\<close> (two's complement). \<open>c_rem\<close> is the remainder operator \<open>%\<close> of C, which
  truncates towards zero.
\<close>

definition u32 :: "int \<Rightarrow> nat" where
  "u32 x = nat (x mod 4294967296)"

definition s32 :: "int \<Rightarrow> int" where
  "s32 x = (let m = x mod 4294967296 in if m < 2147483648 then m else m - 4294967296)"

definition c_rem :: "int \<Rightarrow> int \<Rightarrow> int" where
  "c_rem a b = sgn a * (\<bar>a\<bar> mod \<bar>b\<bar>)"

text \<open>
  A call returns (\<open>Ok\<close>), ends the process with \<open>exit(n)\<close> (\<open>Exit n\<close>), or reads or writes
  outside a buffer, which C leaves undefined (\<open>Undefined\<close>).
\<close>

datatype 'a result = Ok 'a | Exit nat | Undefined

type_synonym byte = "8 word"

section \<open>The raster header and the file-level variables\<close>

datatype cups_order_t = CUPS_ORDER_CHUNKED | CUPS_ORDER_BANDED | CUPS_ORDER_PLANAR

text \<open>
  The colorspaces that \<open>selectConvertFunc\<close> names, and \<open>CUPS_CSPACE_other n\<close> for every other
  value of the enumeration (by its number).
\<close>

datatype cups_cspace_t =
    CUPS_CSPACE_K | CUPS_CSPACE_W | CUPS_CSPACE_SW | CUPS_CSPACE_CMY | CUPS_CSPACE_CMYK
  | CUPS_CSPACE_RGB | CUPS_CSPACE_ADOBERGB | CUPS_CSPACE_SRGB | CUPS_CSPACE_other nat

text \<open>
  The fields of \<open>cups_page_header2_t\<close> that the filter reads or writes. The unsigned fields
  are naturals below \<open>2^32\<close>. \<open>geometry\<close> stands for the fields \<open>PageSize\<close>, \<open>cupsPageSize\<close>,
  \<open>Margins\<close>, \<open>cupsImagingBBox\<close> and \<open>ImagingBoundingBox\<close>, which \<open>outPage\<close> computes in floating
  point from the paper size and the four margins (left, bottom, right, top); the model
  keeps the margins they are computed from.
\<close>

type_synonym margins = "real \<times> real \<times> real \<times> real"

record cups_page_header2_t =
  Duplex :: bool
  Tumble :: bool
  cupsWidth :: nat
  cupsHeight :: nat
  cupsBitsPerColor :: nat
  cupsBitsPerPixel :: nat
  cupsBytesPerLine :: nat
  cupsNumColors :: nat
  cupsColorOrder :: cups_order_t
  cupsColorSpace :: cups_cspace_t
  geometry :: margins

text \<open>
  The row functions that the two function pointers can hold. The twelve converting
  functions call the image library; \<open>convertcspaceNoop\<close> returns its source.
\<close>

datatype cspace_fn =
    RGBtoCMYKLine | RGBtoCMYLine | RGBtoWhiteLine | RGBtoBlackLine
  | CMYKtoRGBLine | CMYKtoCMYLine | CMYKtoWhiteLine | CMYKtoBlackLine
  | GraytoRGBLine | GraytoCMYKLine | GraytoCMYLine | GraytoBlackLine
  | convertcspaceNoop

datatype line_fn = LINE_convertLine | LINE_convertReverseLine

text \<open>
  The variables of the anonymous namespace, on top of the four swap flags. A function
  pointer is \<open>None\<close> while it is null.
\<close>

record globals = swap_state +
  convertcspace :: "cspace_fn option"
  convertline :: "line_fn option"
  pwgraster :: int
  numcolors :: int
  rowsize :: int
  header :: cups_page_header2_t
  nplanes :: nat
  nbands :: nat
  bytesPerLine :: nat

section \<open>selectConvertFunc\<close>

text \<open>
  A row function takes the bytes from its source pointer on, the bytes from its destination
  pointer on, the row number and the number of pixels, and returns the bytes from the pointer
  it returns on. \<open>lib\<close> gives the results of the twelve functions that call the image library.
\<close>

type_synonym cspace_impl = "byte list \<Rightarrow> byte list \<Rightarrow> nat \<Rightarrow> nat \<Rightarrow> byte list"

definition call_cspace :: "(cspace_fn \<Rightarrow> cspace_impl) \<Rightarrow> cspace_fn \<Rightarrow> cspace_impl" where
  "call_cspace lib f src dst row pixels =
     (if f = convertcspaceNoop then src else lib f src dst row pixels)"

definition select_cspace :: "cups_cspace_t \<Rightarrow> string \<Rightarrow> cspace_fn" where
  "select_cspace cs colorspace =
     (case cs of
        CUPS_CSPACE_K \<Rightarrow>
          if colorspace = ''/DeviceRGB'' then RGBtoBlackLine
          else if colorspace = ''/DeviceCMYK'' then CMYKtoBlackLine
          else if colorspace = ''/DeviceGray'' then GraytoBlackLine
          else convertcspaceNoop
      | CUPS_CSPACE_W \<Rightarrow>
          if colorspace = ''/DeviceRGB'' then RGBtoWhiteLine
          else if colorspace = ''/DeviceCMYK'' then CMYKtoWhiteLine
          else convertcspaceNoop
      | CUPS_CSPACE_SW \<Rightarrow>
          if colorspace = ''/DeviceRGB'' then RGBtoWhiteLine
          else if colorspace = ''/DeviceCMYK'' then CMYKtoWhiteLine
          else convertcspaceNoop
      | CUPS_CSPACE_CMY \<Rightarrow>
          if colorspace = ''/DeviceRGB'' then RGBtoCMYLine
          else if colorspace = ''/DeviceCMYK'' then CMYKtoCMYLine
          else if colorspace = ''/DeviceGray'' then GraytoCMYLine
          else convertcspaceNoop
      | CUPS_CSPACE_CMYK \<Rightarrow>
          if colorspace = ''/DeviceRGB'' then RGBtoCMYKLine
          else if colorspace = ''/DeviceGray'' then GraytoCMYKLine
          else convertcspaceNoop
      | _ \<Rightarrow>
          if colorspace = ''/DeviceCMYK'' then CMYKtoRGBLine
          else if colorspace = ''/DeviceGray'' then GraytoRGBLine
          else convertcspaceNoop)"

text \<open>
  \<open>selectConvertFunc\<close>: the row size and the number of source components from the page's
  colorspace (\<open>exit(1)\<close> for any other name), then the two function pointers. \<open>pgno & 1\<close> is
  the parity of the page index, which is never negative.
\<close>

definition selectConvertFunc :: "string \<Rightarrow> nat \<Rightarrow> globals \<Rightarrow> globals result" where
  "selectConvertFunc colorspace pgno g =
     (let w = int (cupsWidth (header g)) in
      case (if colorspace = ''/DeviceRGB'' then Some (g\<lparr>rowsize := s32 (w * 3), numcolors := 3\<rparr>)
            else if colorspace = ''/DeviceCMYK'' then Some (g\<lparr>rowsize := s32 (w * 4), numcolors := 4\<rparr>)
            else if colorspace = ''/DeviceGray'' then Some (g\<lparr>rowsize := s32 w, numcolors := 1\<rparr>)
            else None) of
        None \<Rightarrow> Exit 1
      | Some g1 \<Rightarrow>
          (let g2 = g1\<lparr>convertcspace := Some (select_cspace (cupsColorSpace (header g1)) colorspace)\<rparr>
           in Ok (g2\<lparr>convertline :=
                     (if Duplex (header g2) \<and> odd pgno \<and> swap_image_x g2
                      then Some LINE_convertReverseLine else Some LINE_convertLine)\<rparr>)))"

section \<open>rotatebitmap\<close>

text \<open>
  Pointers into a buffer are offsets from its start; \<open>bp\<close> can leave the buffer, so it is
  an integer. One pixel of \<open>c\<close> components is copied by \<open>dp[j] = bp[j]\<close> for \<open>j\<close> below
  \<open>c\<close>; an access outside either buffer gives \<open>None\<close>.
\<close>

fun copy_comps :: "nat \<Rightarrow> nat \<Rightarrow> byte list \<Rightarrow> int \<Rightarrow> byte list \<Rightarrow> nat \<Rightarrow> byte list option" where
  "copy_comps 0 j src bp dst dp = Some dst"
| "copy_comps (Suc n) j src bp dst dp =
     (if 0 \<le> bp + int j \<and> bp + int j < int (length src) \<and> dp + j < length dst
      then copy_comps n (Suc j) src bp (dst[dp + j := src ! nat (bp + int j)]) dp
      else None)"

text \<open>
  The inner loop \<open>for (w = 0; w < width; w++, bp += step, dp += c)\<close>, by the number of
  iterations left; the state is \<open>(bp, dst, dp)\<close>.
\<close>

fun pixel_loop ::
  "nat \<Rightarrow> nat \<Rightarrow> int \<Rightarrow> byte list \<Rightarrow> int \<times> byte list \<times> nat \<Rightarrow> (int \<times> byte list \<times> nat) option" where
  "pixel_loop 0 c step src st = Some st"
| "pixel_loop (Suc n) c step src (bp, dst, dp) =
     (case copy_comps c 0 src bp dst dp of
        None \<Rightarrow> None
      | Some dst' \<Rightarrow> pixel_loop n c step src (bp + step, dst', dp + c))"

text \<open>
  The outer loop of the 180 degree branches: \<open>bp\<close> runs on from row to row.
\<close>

fun rows_running ::
  "nat \<Rightarrow> nat \<Rightarrow> nat \<Rightarrow> int \<Rightarrow> byte list \<Rightarrow> int \<times> byte list \<times> nat \<Rightarrow> (int \<times> byte list \<times> nat) option" where
  "rows_running 0 width c step src st = Some st"
| "rows_running (Suc n) width c step src st =
     (case pixel_loop width c step src st of
        None \<Rightarrow> None
      | Some st' \<Rightarrow> rows_running n width c step src st')"

text \<open>
  The outer loop of the 90 and 270 degree branches: row \<open>h\<close> sets \<open>bp\<close> to \<open>start h\<close> first.
\<close>

fun rows_seeking ::
  "nat \<Rightarrow> nat \<Rightarrow> (nat \<Rightarrow> int) \<Rightarrow> nat \<Rightarrow> nat \<Rightarrow> int \<Rightarrow> byte list \<Rightarrow> byte list \<times> nat \<Rightarrow>
   (byte list \<times> nat) option" where
  "rows_seeking 0 h start width c step src st = Some st"
| "rows_seeking (Suc n) h start width c step src (dst, dp) =
     (case pixel_loop width c step src (start h, dst, dp) of
        None \<Rightarrow> None
      | Some (bp', dst', dp') \<Rightarrow> rows_seeking n (Suc h) start width c step src (dst', dp'))"

text \<open>
  The three branches for pixels of \<open>c\<close> components (1 for \<open>/DeviceGray\<close>, 4 for
  \<open>/DeviceCMYK\<close>, 3 for \<open>/DeviceRGB\<close>). The offsets added to \<open>src\<close> are unsigned expressions:
  \<open>height * rowsize\<close>, \<open>(height - h) * c\<close>, \<open>height * c\<close> and
  \<open>(width - 1) * height * c + c * h\<close>.
\<close>

definition rotate180 :: "nat \<Rightarrow> byte list \<Rightarrow> byte list \<Rightarrow> nat \<Rightarrow> nat \<Rightarrow> int \<Rightarrow> byte list result" where
  "rotate180 c src dst height width row_size =
     (case rows_running height width c (- int c) src
             (int (u32 (int height * row_size)) - int c, dst, 0) of
        None \<Rightarrow> Undefined
      | Some (bp', dst', dp') \<Rightarrow> Ok dst')"

definition rotate270 :: "nat \<Rightarrow> byte list \<Rightarrow> byte list \<Rightarrow> nat \<Rightarrow> nat \<Rightarrow> byte list result" where
  "rotate270 c src dst height width =
     (case rows_seeking height 0
             (\<lambda>h. int (u32 ((int height - int h) * int c)) - int c)
             width c (int (u32 (int height * int c))) src (dst, 0) of
        None \<Rightarrow> Undefined
      | Some (dst', dp') \<Rightarrow> Ok dst')"

definition rotate90 :: "nat \<Rightarrow> byte list \<Rightarrow> byte list \<Rightarrow> nat \<Rightarrow> nat \<Rightarrow> byte list result" where
  "rotate90 c src dst height width =
     (case rows_seeking height 0
             (\<lambda>h. int (u32 ((int width - 1) * int height * int c + int c * int h)))
             width c (- int (u32 (int height * int c))) src (dst, 0) of
        None \<Rightarrow> Undefined
      | Some (dst', dp') \<Rightarrow> Ok dst')"

text \<open>
  \<open>rotatebitmap\<close>: \<open>src\<close> and \<open>dst\<close> are the two buffers, \<open>angle\<close> (the parameter \<open>rotate\<close>),
  \<open>height\<close> and \<open>width\<close> are unsigned, \<open>row_size\<close> (the parameter \<open>rowsize\<close>) is an \<open>int\<close>. The result is the buffer behind the returned pointer:
  \<open>src\<close> for no rotation, \<open>dst\<close> as the loops leave it otherwise (untouched for a colorspace
  that no branch names).
\<close>

definition rotatebitmap ::
  "byte list \<Rightarrow> byte list \<Rightarrow> nat \<Rightarrow> nat \<Rightarrow> nat \<Rightarrow> int \<Rightarrow> string \<Rightarrow> byte list result" where
  "rotatebitmap src dst angle height width row_size colorspace =
     (if angle = 0 then Ok src
      else if angle = 180 then
        (if colorspace = ''/DeviceGray'' then rotate180 1 src dst height width row_size
         else if colorspace = ''/DeviceCMYK'' then rotate180 4 src dst height width row_size
         else if colorspace = ''/DeviceRGB'' then rotate180 3 src dst height width row_size
         else Ok dst)
      else if angle = 270 then
        (if colorspace = ''/DeviceGray'' then rotate270 1 src dst height width
         else if colorspace = ''/DeviceCMYK'' then rotate270 4 src dst height width
         else if colorspace = ''/DeviceRGB'' then rotate270 3 src dst height width
         else Ok dst)
      else if angle = 90 then
        (if colorspace = ''/DeviceGray'' then rotate90 1 src dst height width
         else if colorspace = ''/DeviceCMYK'' then rotate90 4 src dst height width
         else if colorspace = ''/DeviceRGB'' then rotate90 3 src dst height width
         else Ok dst)
      else Exit 1)"

section \<open>The page objects of the document\<close>

text \<open>
  The objects of the document as the QPDF library hands them out. Its accessors do not
  fail on an object of another type: they warn and answer with a fallback (the null object,
  the empty vector, 0), and \<open>getIntValueAsInt\<close> clamps to the range of \<open>int\<close>.
\<close>

datatype pdf_object =
    PdfNull
  | PdfBoolean bool
  | PdfInteger int
  | PdfReal real
  | PdfName string
  | PdfString string
  | PdfArray "pdf_object list"
  | PdfDictionary "(string \<times> pdf_object) list"

fun isDictionary :: "pdf_object \<Rightarrow> bool" where
  "isDictionary (PdfDictionary kvs) = True"
| "isDictionary _ = False"

fun getKey :: "pdf_object \<Rightarrow> string \<Rightarrow> pdf_object" where
  "getKey (PdfDictionary kvs) k = (case map_of kvs k of Some v \<Rightarrow> v | None \<Rightarrow> PdfNull)"
| "getKey _ k = PdfNull"

definition hasKey :: "pdf_object \<Rightarrow> string \<Rightarrow> bool" where
  "hasKey object k = (isDictionary object \<and> getKey object k \<noteq> PdfNull)"

fun isInteger :: "pdf_object \<Rightarrow> bool" where
  "isInteger (PdfInteger n) = True"
| "isInteger _ = False"

fun getIntValue :: "pdf_object \<Rightarrow> int" where
  "getIntValue (PdfInteger n) = n"
| "getIntValue _ = 0"

definition getIntValueAsInt :: "pdf_object \<Rightarrow> int" where
  "getIntValueAsInt object =
     (let v = getIntValue object in
      if v < - 2147483648 then - 2147483648 else if v > 2147483647 then 2147483647 else v)"

fun getArrayAsVector :: "pdf_object \<Rightarrow> pdf_object list" where
  "getArrayAsVector (PdfArray xs) = xs"
| "getArrayAsVector _ = []"

fun getNumericValue :: "pdf_object \<Rightarrow> real" where
  "getNumericValue (PdfInteger n) = real_of_int n"
| "getNumericValue (PdfReal x) = x"
| "getNumericValue _ = 0"

fun isName :: "pdf_object \<Rightarrow> bool" where
  "isName (PdfName n) = True"
| "isName _ = False"

fun getName :: "pdf_object \<Rightarrow> string" where
  "getName (PdfName n) = n"
| "getName _ = []"

text \<open>
  \<open>mediaboxlookup\<close>: the result and the four values of \<open>rect\<close>. The loop reads
  \<open>mediabox[0]\<close> to \<open>mediabox[3]\<close> before the size of the vector is looked at; with fewer
  than four elements that is a read outside the vector. The values of \<open>rect\<close> are kept as
  the numbers of the array, without the rounding to \<open>float\<close> of the code; \<open>outPage\<close> only
  prints them.
\<close>

definition mediaboxlookup :: "pdf_object \<Rightarrow> (bool \<times> real list) result" where
  "mediaboxlookup object =
     (if \<not> isDictionary object \<or> \<not> hasKey object ''/MediaBox'' then Ok (False, [])
      else
        (let mediabox = getArrayAsVector (getKey object ''/MediaBox'') in
         if length mediabox < 4 then Undefined
         else Ok (length mediabox = 4, map getNumericValue (take 4 mediabox))))"

section \<open>outPage\<close>

text \<open>
  One image of a page: the values of \<open>/Width\<close> and \<open>/Height\<close> (\<open>long long\<close>), the
  \<open>/ColorSpace\<close> object of its dictionary and its decoded stream data.
\<close>

record image =
  img_width :: int
  img_height :: int
  img_colorspace :: pdf_object
  img_data :: "byte list"

text \<open>
  What \<open>outPage\<close> gets for one page: the page object; its images in the order of
  \<open>getPageImages\<close>; the array \<open>margins\<close> as the page-size code before the duplex block leaves
  it (\<open>ppdRasterMatchPPDSize\<close> with a PPD, the header's bounding box without); whether
  \<open>cupsRasterWriteHeader2\<close> succeeds; and the bytes that the buffer from \<open>malloc\<close> holds before
  \<open>rotatebitmap\<close> writes to it.
\<close>

record pdf_page =
  page_object :: pdf_object
  page_images :: "image list"
  page_margins :: margins
  header_written :: bool
  malloc_bytes :: "nat \<Rightarrow> byte"

text \<open>
  A scanline is given by the call that makes it: the row function and the colorspace
  function in place, the bitmap with the offset \<open>bp\<close> of the source row, the row number, the
  plane and the number of pixels of the \<open>convertline\<close> call, and the number of bytes that
  \<open>cupsRasterWritePixels\<close> writes.
\<close>

record scanline =
  sl_convertline :: "line_fn option"
  sl_convertcspace :: "cspace_fn option"
  sl_colordata :: "byte list"
  sl_bp :: int
  sl_row :: nat
  sl_plane :: nat
  sl_pixels :: nat
  sl_bytes :: nat

text \<open>
  The trace of a page: the lines on \<open>stderr\<close>, the header and the scanlines given to the
  raster stream, and each call of \<open>rotatebitmap\<close> with its scalar arguments (rotate, height,
  width, rowsize, colorspace).
\<close>

datatype event =
    Log string
  | WriteHeader cups_page_header2_t
  | WritePixels scanline
  | CallRotate nat nat nat int string

text \<open>
  The loop over the images: the height is the sum of the heights, the width the largest
  width, the colorspace object that of the last image, the bitmap all stream data in order.
  The state is \<open>(cupsWidth, cupsHeight, colorspace_obj, bitmap)\<close>.
\<close>

fun load_images ::
  "image list \<Rightarrow> nat \<times> nat \<times> pdf_object \<times> byte list \<Rightarrow> nat \<times> nat \<times> pdf_object \<times> byte list" where
  "load_images [] st = st"
| "load_images (im # ims) (w, h, cobj, bitmap) =
     load_images ims
       (if img_width im > int w then u32 (img_width im) else w,
        u32 (int h + img_height im),
        img_colorspace im,
        bitmap @ img_data im)"

text \<open>
  The margins of a backside page are swapped as the margin flags say.
\<close>

definition backside_margins :: "globals \<Rightarrow> nat \<Rightarrow> margins \<Rightarrow> margins" where
  "backside_margins g pgno m =
     (if Duplex (header g) \<and> odd pgno then
        (let m1 = (if swap_margin_x g then (case m of (m0, m1, m2, m3) \<Rightarrow> (m2, m1, m0, m3)) else m)
         in if swap_margin_y g then (case m1 of (m0, m1, m2, m3) \<Rightarrow> (m0, m3, m2, m1)) else m1)
      else m)"

text \<open>
  Width and height are swapped for a page rotated by 90 or 270 degrees; then the bytes per
  line are computed (unsigned).
\<close>

definition size_header :: "int \<Rightarrow> nat \<Rightarrow> nat \<Rightarrow> globals \<Rightarrow> globals" where
  "size_header rot w h g =
     (let hd0 = (header g)\<lparr>cupsWidth := w, cupsHeight := h\<rparr>;
          hd1 = (if rot = 270 \<or> rot = 90
                 then hd0\<lparr>cupsHeight := cupsWidth hd0, cupsWidth := cupsHeight hd0\<rparr> else hd0);
          bpl = u32 (int (cupsBitsPerPixel hd1) * int (cupsWidth hd1) + 7) div 8;
          hd2 = hd1\<lparr>cupsBytesPerLine := bpl\<rparr>;
          hd3 = (if cupsColorOrder hd2 = CUPS_ORDER_BANDED
                 then hd2\<lparr>cupsBytesPerLine :=
                        u32 (int (cupsBytesPerLine hd2) * int (cupsNumColors hd2))\<rparr>
                 else hd2)
      in g\<lparr>header := hd3, bytesPerLine := bpl\<rparr>)"

text \<open>
  A page to be swapped in both directions is rotated by 180 degrees instead, and the two
  image flags are cleared.
\<close>

definition fold_rotation :: "int \<Rightarrow> nat \<Rightarrow> globals \<Rightarrow> int \<times> globals" where
  "fold_rotation rot pgno g =
     (if Duplex (header g) \<and> odd pgno \<and> swap_image_y g \<and> swap_image_x g
      then (c_rem (rot + 180) 360, g\<lparr>swap_image_y := False, swap_image_x := False\<rparr>)
      else (rot, g))"

text \<open>
  The scanlines of one plane: from the last row up for a backside page with \<open>swap_image_y\<close>
  (\<open>h\<close> counts down, \<open>bp\<close> steps back by \<open>rowsize\<close>), from the first row down otherwise.
\<close>

definition band_lines :: "globals \<Rightarrow> byte list \<Rightarrow> int \<Rightarrow> nat \<Rightarrow> nat \<Rightarrow> event list" where
  "band_lines g colordata bp row plane =
     map (\<lambda>band. WritePixels
            \<lparr>sl_convertline = convertline g, sl_convertcspace = convertcspace g,
             sl_colordata = colordata, sl_bp = bp, sl_row = row, sl_plane = plane + band,
             sl_pixels = cupsWidth (header g), sl_bytes = bytesPerLine g\<rparr>)
       [0..<nbands g]"

fun lines_backward :: "nat \<Rightarrow> globals \<Rightarrow> byte list \<Rightarrow> int \<Rightarrow> nat \<Rightarrow> event list" where
  "lines_backward 0 g colordata bp plane = []"
| "lines_backward (Suc h) g colordata bp plane =
     band_lines g colordata bp h plane @ lines_backward h g colordata (bp - rowsize g) plane"

fun lines_forward :: "nat \<Rightarrow> nat \<Rightarrow> globals \<Rightarrow> byte list \<Rightarrow> int \<Rightarrow> nat \<Rightarrow> event list" where
  "lines_forward 0 h g colordata bp plane = []"
| "lines_forward (Suc n) h g colordata bp plane =
     band_lines g colordata bp h plane
     @ lines_forward n (Suc h) g colordata (bp + rowsize g) plane"

definition write_page_image :: "globals \<Rightarrow> nat \<Rightarrow> byte list \<Rightarrow> event list" where
  "write_page_image g pgno colordata =
     (if Duplex (header g) \<and> odd pgno \<and> swap_image_y g then
        concat (map (\<lambda>plane. lines_backward (cupsHeight (header g)) g colordata
                       (int (u32 ((int (cupsHeight (header g)) - 1) * rowsize g))) plane)
                  [0..<nplanes g])
      else
        concat (map (\<lambda>plane. lines_forward (cupsHeight (header g)) 0 g colordata 0 plane)
                  [0..<nplanes g]))"

text \<open>
  The colorspace name of the page: \<open>/DeviceRGB\<close> when the colorspace object is no name.
\<close>

definition colorspace_name :: "pdf_object \<Rightarrow> string" where
  "colorspace_name colorspace_obj =
     (if isName colorspace_obj then getName colorspace_obj else ''/DeviceRGB'')"

text \<open>
  The page from the written header on: the colorspace name, the fold, the rotation with the
  \<open>rowsize\<close> that the variable holds at that moment, \<open>selectConvertFunc\<close>, and the
  scanlines.
\<close>

definition render_page ::
  "globals \<Rightarrow> pdf_page \<Rightarrow> nat \<Rightarrow> int \<Rightarrow> pdf_object \<Rightarrow> byte list \<Rightarrow> event list \<times> globals result" where
  "render_page g page pgno rot colorspace_obj bitmap =
     (let colorspace = colorspace_name colorspace_obj;
          (rot', g1) = fold_rotation rot pgno g;
          call = (if rot' \<noteq> 0
                  then [CallRotate (u32 rot') (cupsHeight (header g1)) (cupsWidth (header g1))
                          (rowsize g1) colorspace]
                  else [])
      in case (if rot' \<noteq> 0
               then rotatebitmap bitmap (map (malloc_bytes page) [0..<length bitmap]) (u32 rot')
                      (cupsHeight (header g1)) (cupsWidth (header g1)) (rowsize g1) colorspace
               else Ok bitmap) of
           Exit n \<Rightarrow> (call @ [Log ''ERROR: Incorrect Rotate Value''], Exit n)
         | Undefined \<Rightarrow> (call, Undefined)
         | Ok colordata \<Rightarrow>
             (case selectConvertFunc colorspace pgno g1 of
                Exit n \<Rightarrow> (call @ [Log ''ERROR: Colorspace not supported''], Exit n)
              | Undefined \<Rightarrow> (call, Undefined)
              | Ok g2 \<Rightarrow> (call @ write_page_image g2 pgno colordata, Ok g2)))"

text \<open>
  \<open>outPage\<close>: the trace of the page, and the variables when it returns. \<open>page_rotate\<close> is
  the local \<open>rotate\<close> as the first lines set it. A page without a media box is left after
  one line on \<open>stderr\<close>. \<open>assemble_page\<close> is the part from the page size to the bytes per
  line: the variables with the header of the page, the colorspace object and the bitmap.
\<close>

definition page_rotate :: "pdf_page \<Rightarrow> int" where
  "page_rotate page =
     (if isInteger (getKey (page_object page) ''/Rotate'')
      then getIntValueAsInt (getKey (page_object page) ''/Rotate'') else 0)"

definition assemble_page :: "globals \<Rightarrow> pdf_page \<Rightarrow> nat \<Rightarrow> globals \<times> pdf_object \<times> byte list" where
  "assemble_page g page pgno =
     (let g1 = g\<lparr>header := (header g)\<lparr>geometry :=
                      backside_margins g pgno (page_margins page)\<rparr>\<rparr>;
          (w, h, colorspace_obj, bitmap) = load_images (page_images page) (0, 0, PdfNull, [])
      in (size_header (page_rotate page) w h g1, colorspace_obj, bitmap))"

definition outPage :: "globals \<Rightarrow> pdf_page \<Rightarrow> nat \<Rightarrow> event list \<times> globals result" where
  "outPage g page pgno =
     (case mediaboxlookup (page_object page) of
        Exit n \<Rightarrow> ([], Exit n)
      | Undefined \<Rightarrow> ([], Undefined)
      | Ok (valid, rect) \<Rightarrow>
          if \<not> valid then ([Log ''ERROR: pdf page doesn't contain a valid mediaBox''], Ok g)
          else
            (case assemble_page g page pgno of
               (g2, colorspace_obj, bitmap) \<Rightarrow>
                 if \<not> header_written page
                 then ([Log ''DEBUG: mediaBox'', Log ''ERROR: Can't write page header''], Exit 1)
                 else
                   (case render_page g2 page pgno (page_rotate page) colorspace_obj bitmap of
                      (evs, r) \<Rightarrow> ([Log ''DEBUG: mediaBox'', WriteHeader (header g2)] @ evs, r))))"

section \<open>The loop over the pages\<close>

text \<open>
  \<open>main\<close> calls \<open>outPage\<close> for the pages in order, with the page index counted from 0; the
  result is one trace per page that was begun.
\<close>

fun process_pages :: "globals \<Rightarrow> pdf_page list \<Rightarrow> nat \<Rightarrow> event list list \<times> globals result" where
  "process_pages g [] i = ([], Ok g)"
| "process_pages g (page # pages) i =
     (case outPage g page i of
        (evs, Ok g') \<Rightarrow> (case process_pages g' pages (Suc i) of (tr, r) \<Rightarrow> (evs # tr, r))
      | (evs, Exit n) \<Rightarrow> ([evs], Exit n)
      | (evs, Undefined) \<Rightarrow> ([evs], Undefined))"

text \<open>
  The variables when \<open>main\<close> enters the loop: the header and \<open>pwgraster\<close> as \<open>parseOpts\<close> got
  them from the PPD and the options, the swap flags from its duplex block, \<open>nplanes\<close> and
  \<open>nbands\<close> from the color order, and everything else as initialised (zero, null). A number
  of bits per color other than 1, 2, 4, 8 or 16 ends the process before.
\<close>

definition main_globals :: "cups_page_header2_t \<Rightarrow> ppd_file_t option \<Rightarrow> int \<Rightarrow> globals result" where
  "main_globals hdr ppd pwg =
     (let g = parseOpts_duplex ppd (Duplex hdr) (Tumble hdr)
                \<lparr>swap_image_x = False, swap_image_y = False,
                 swap_margin_x = False, swap_margin_y = False,
                 convertcspace = None, convertline = None, pwgraster = pwg,
                 numcolors = 0, rowsize = 0, header = hdr,
                 nplanes = 0, nbands = 0, bytesPerLine = 0\<rparr>
      in if cupsBitsPerColor hdr \<noteq> 1 \<and> cupsBitsPerColor hdr \<noteq> 2 \<and> cupsBitsPerColor hdr \<noteq> 4
            \<and> cupsBitsPerColor hdr \<noteq> 8 \<and> cupsBitsPerColor hdr \<noteq> 16
         then Exit 1
         else Ok (g\<lparr>nplanes := (if cupsColorOrder hdr = CUPS_ORDER_PLANAR then cupsNumColors hdr else 1),
                    nbands := (if cupsColorOrder hdr = CUPS_ORDER_BANDED then cupsNumColors hdr else 1)\<rparr>))"

section \<open>convertReverseLine\<close>

text \<open>
  The helpers of the bitmap library that the row functions call, with the arguments of the
  C functions (a pointer is the bytes from it on; the result is the bytes behind the
  returned pointer, for \<open>writepixel\<close> the destination row after the write), and the content
  of the two local pixel buffers before they are written.
\<close>

record bitmap_lib =
  cspace_lib :: "cspace_fn \<Rightarrow> cspace_impl"
  reverseOneBitLine :: "byte list \<Rightarrow> byte list \<Rightarrow> nat \<Rightarrow> nat \<Rightarrow> byte list"
  convertbits :: "byte list \<Rightarrow> byte list \<Rightarrow> nat \<Rightarrow> nat \<Rightarrow> nat \<Rightarrow> nat \<Rightarrow> byte list"
  writepixel :: "byte list \<Rightarrow> nat \<Rightarrow> nat \<Rightarrow> byte list \<Rightarrow> nat \<Rightarrow> nat \<Rightarrow> cups_order_t \<Rightarrow> byte list"
  pixelBuf1 :: "byte list"
  pixelBuf2 :: "byte list"

text \<open>
  The loop of the general path: pixel \<open>i\<close> of the row is made from the source pixel at
  \<open>src + (pixels - i - 1) * numcolors\<close>.
\<close>

fun reverse_pixels ::
  "nat \<Rightarrow> nat \<Rightarrow> bitmap_lib \<Rightarrow> globals \<Rightarrow> cspace_fn \<Rightarrow> byte list \<Rightarrow> nat \<Rightarrow> nat \<Rightarrow> nat \<Rightarrow> byte list \<Rightarrow>
   byte list result" where
  "reverse_pixels 0 i lib g f src row plane pixels dst = Ok dst"
| "reverse_pixels (Suc n) i lib g f src row plane pixels dst =
     (let off = u32 ((int pixels - int i - 1) * numcolors g) in
      if off > length src then Undefined
      else
        (let pb = call_cspace (cspace_lib lib) f (drop off src) (pixelBuf1 lib) row 1;
             pb' = convertbits lib pb (pixelBuf2 lib) i row (cupsNumColors (header g))
                     (cupsBitsPerColor (header g))
         in reverse_pixels n (Suc i) lib g f src row plane pixels
              (writepixel lib dst plane i pb' (cupsNumColors (header g))
                 (cupsBitsPerColor (header g)) (cupsColorOrder (header g)))))"

definition convertReverseLine ::
  "bitmap_lib \<Rightarrow> globals \<Rightarrow> byte list \<Rightarrow> byte list \<Rightarrow> byte list \<Rightarrow> nat \<Rightarrow> nat \<Rightarrow> nat \<Rightarrow> byte list result" where
  "convertReverseLine lib g src dst buf row plane pixels =
     (case convertcspace g of
        None \<Rightarrow> Undefined
      | Some f \<Rightarrow>
          if cupsBitsPerColor (header g) = 1 \<and> cupsNumColors (header g) = 1 then
            Ok (reverseOneBitLine lib (call_cspace (cspace_lib lib) f src buf row pixels) dst
                  pixels (bytesPerLine g))
          else if cupsBitsPerColor (header g) = 8
                  \<and> cupsColorOrder (header g) = CUPS_ORDER_CHUNKED then
            (case pixel_loop pixels (cupsNumColors (header g)) (- int (cupsNumColors (header g)))
                    (call_cspace (cspace_lib lib) f src buf row pixels)
                    (int (u32 ((int (cupsWidth (header g)) - 1) * int (cupsNumColors (header g)))),
                     dst, 0) of
               None \<Rightarrow> Undefined
             | Some (bp', dst', dp') \<Rightarrow> Ok dst')
          else reverse_pixels pixels 0 lib g f src row plane pixels dst)"

text \<open>
  Pixel \<open>i\<close> of a row of one bit per pixel; the bits of a byte are taken from the most
  significant one.
\<close>

definition getbit :: "byte list \<Rightarrow> nat \<Rightarrow> bool" where
  "getbit r i = bit (r ! (i div 8)) (7 - i mod 8)"

text \<open>
  What the row functions expect of two of the helpers. \<open>reverseOneBitLine(src, dst, pixels,
  size)\<close> returns a row whose pixel \<open>i\<close> is pixel \<open>pixels - 1 - i\<close> of \<open>src\<close>.
  \<open>writepixel(dst, plane, i, pixelBuf, ...)\<close> leaves a row of the same length in which
  pixel \<open>i\<close> reads as the value \<open>val\<close> of the pixel buffer and every other pixel reads as
  before; \<open>readpixel\<close> is how a pixel of a packed row is read, for rows of \<open>len\<close> bytes.
\<close>

definition mirrors_bits :: "bitmap_lib \<Rightarrow> nat \<Rightarrow> nat \<Rightarrow> bool" where
  "mirrors_bits lib pixels nbytes =
     (\<forall>s d. \<forall>i<pixels. getbit (reverseOneBitLine lib s d pixels nbytes) i = getbit s (pixels - 1 - i))"

definition writes_pixels ::
  "bitmap_lib \<Rightarrow> globals \<Rightarrow> nat \<Rightarrow> nat \<Rightarrow> nat \<Rightarrow> (byte list \<Rightarrow> nat \<Rightarrow> 'v) \<Rightarrow> (byte list \<Rightarrow> 'v) \<Rightarrow> bool" where
  "writes_pixels lib g plane pixels len readpixel val =
     (\<forall>d pb. \<forall>i<pixels. length d = len \<longrightarrow>
        length (writepixel lib d plane i pb (cupsNumColors (header g))
                  (cupsBitsPerColor (header g)) (cupsColorOrder (header g))) = len \<and>
        readpixel (writepixel lib d plane i pb (cupsNumColors (header g))
                  (cupsBitsPerColor (header g)) (cupsColorOrder (header g))) i = val pb \<and>
        (\<forall>i'. i' \<noteq> i \<longrightarrow>
           readpixel (writepixel lib d plane i pb (cupsNumColors (header g))
                  (cupsBitsPerColor (header g)) (cupsColorOrder (header g))) i' = readpixel d i'))"

text \<open>
  The pixel that the general path writes at position \<open>i\<close>, made from the source bytes at
  offset \<open>off\<close>: \<open>convertcspace\<close> for one pixel, then \<open>convertbits\<close> at column \<open>i\<close>.
\<close>

definition reversed_pixel :: "bitmap_lib \<Rightarrow> globals \<Rightarrow> cspace_fn \<Rightarrow> byte list \<Rightarrow> nat \<Rightarrow> nat \<Rightarrow> nat \<Rightarrow> byte list" where
  "reversed_pixel lib g f src row off i =
     convertbits lib (call_cspace (cspace_lib lib) f (drop off src) (pixelBuf1 lib) row 1)
       (pixelBuf2 lib) i row (cupsNumColors (header g)) (cupsBitsPerColor (header g))"

section \<open>Observations on a job\<close>

text \<open>
  \<open>put_swaps s g\<close> are the variables \<open>g\<close> with the four swap flags of \<open>s\<close>.
\<close>

definition put_swaps :: "swap_state \<Rightarrow> globals \<Rightarrow> globals" where
  "put_swaps s g =
     g\<lparr>swap_image_x := swap_image_x s, swap_image_y := swap_image_y s,
       swap_margin_x := swap_margin_x s, swap_margin_y := swap_margin_y s\<rparr>"




section \<open>A small job\<close>

text \<open>
  A duplex job on a gray device, 8 bits per pixel, chunked, with a PPD whose backside is
  \<open>Rotated\<close>; pages with one image of a given size, colorspace name and rotation.
\<close>

definition demo_header :: cups_page_header2_t where
  "demo_header =
     \<lparr>Duplex = True, Tumble = False, cupsWidth = 0, cupsHeight = 0, cupsBitsPerColor = 8,
      cupsBitsPerPixel = 8, cupsBytesPerLine = 0, cupsNumColors = 1,
      cupsColorOrder = CUPS_ORDER_CHUNKED, cupsColorSpace = CUPS_CSPACE_W,
      geometry = (0, 0, 0, 0)\<rparr>"

definition demo_ppd :: ppd_file_t where
  "demo_ppd = \<lparr>cupsBackSide = Some ''Rotated'', APDuplexRequiresFlippedMargin = None,
               flip_duplex = False\<rparr>"

definition demo_globals :: globals where
  "demo_globals =
     \<lparr>swap_image_x = True, swap_image_y = True, swap_margin_x = True, swap_margin_y = True,
      convertcspace = None, convertline = None, pwgraster = 0, numcolors = 0, rowsize = 0,
      header = demo_header, nplanes = 1, nbands = 1, bytesPerLine = 0\<rparr>"

definition demo_page :: "pdf_object list \<Rightarrow> int \<Rightarrow> int \<Rightarrow> int \<Rightarrow> string \<Rightarrow> byte list \<Rightarrow> pdf_page" where
  "demo_page mediabox rot w h colorspace bytes =
     \<lparr>page_object = PdfDictionary [(''/MediaBox'', PdfArray mediabox), (''/Rotate'', PdfInteger rot)],
      page_images = [\<lparr>img_width = w, img_height = h, img_colorspace = PdfName colorspace,
                      img_data = bytes\<rparr>],
      page_margins = (1, 2, 3, 4),
      header_written = True,
      malloc_bytes = (\<lambda>i. 0)\<rparr>"

definition letter :: "pdf_object list" where
  "letter = [PdfInteger 0, PdfInteger 0, PdfInteger 612, PdfInteger 792]"


text \<open>
  Helpers for the examples: a \<open>reverseOneBitLine\<close> that builds each byte of the result from
  the mirrored pixels, a \<open>convertbits\<close> that keeps the pixel, a \<open>writepixel\<close> for pixels of one
  byte; and the variables of a job with a given number of bits per color, number of colors,
  color order, width and bytes per line, whose colorspace function is \<open>convertcspaceNoop\<close>.
\<close>

definition mirror_bits :: "byte list \<Rightarrow> nat \<Rightarrow> nat \<Rightarrow> byte list" where
  "mirror_bits s pixels nbytes =
     map (\<lambda>k. horner_sum of_bool 2
                (map (\<lambda>m. 8 * k + (7 - m) < pixels \<and> getbit s (pixels - 1 - (8 * k + (7 - m))))
                   [0..<8]))
       [0..<nbytes]"

definition demo_lib :: bitmap_lib where
  "demo_lib =
     \<lparr>cspace_lib = (\<lambda>f src dst row pixels. src),
      reverseOneBitLine = (\<lambda>s d pixels nbytes. mirror_bits s pixels nbytes),
      convertbits = (\<lambda>pb dst x y nc bits. pb),
      writepixel = (\<lambda>d plane i pb nc bits order. d[i := pb ! 0]),
      pixelBuf1 = [], pixelBuf2 = []\<rparr>"

definition demo_line_globals :: "nat \<Rightarrow> nat \<Rightarrow> cups_order_t \<Rightarrow> nat \<Rightarrow> nat \<Rightarrow> globals" where
  "demo_line_globals bits colors order width bpl =
     demo_globals\<lparr>convertcspace := Some convertcspaceNoop, numcolors := int colors,
       bytesPerLine := bpl,
       header := demo_header\<lparr>cupsBitsPerColor := bits, cupsNumColors := colors,
                              cupsColorOrder := order, cupsWidth := width\<rparr>\<rparr>"

section \<open>Theorems\<close>

subsection \<open>The duplex policy\<close>

text \<open>
  Claim C1, as the code has it. With \<open>b\<close> the backside string of the block (the
  \<open>cupsBackSide\<close> value, or \<open>"Rotated"\<close> when the attribute is absent and the PPD sets
  \<open>flip_duplex\<close>, else empty), compared without regard to case, and \<open>fm\<close> the flipped-margin
  attribute: for \<open>b = "ManualTumble"\<close> with tumble, and for \<open>b = "Rotated"\<close> without tumble, all
  four flags are set, except that \<open>swap_margin_y\<close> is false when \<open>fm\<close> is true; for
  \<open>b = "Flipped"\<close> the flags are image-x, margin-x and margin-y with tumble and image-y alone
  without, and \<open>swap_margin_y\<close> is inverted when \<open>fm\<close> is false; in every other case, and
  without a PPD or without duplex, the four flags stay false. There is no error case: the
  function is total.
\<close>

theorem parseOpts_duplex_table:
  "parseOpts_duplex (Some ppd) True tumble init_swap =
     (let b = backside_of ppd; fm = flippedMargin_of ppd in
      if (strcasecmp b ''ManualTumble'' = 0 \<and> tumble) \<or> (strcasecmp b ''Rotated'' = 0 \<and> \<not> tumble)
      then \<lparr>swap_image_x = True, swap_image_y = True,
            swap_margin_x = True, swap_margin_y = (fm \<noteq> FM_TRUE)\<rparr>
      else if strcasecmp b ''Flipped'' = 0
      then \<lparr>swap_image_x = tumble, swap_image_y = (\<not> tumble),
            swap_margin_x = tumble, swap_margin_y = (tumble \<noteq> (fm = FM_FALSE))\<rparr>
      else init_swap) \<and>
   parseOpts_duplex (Some ppd) False tumble init_swap = init_swap \<and>
   parseOpts_duplex None duplex tumble init_swap = init_swap"
  by (auto simp: parseOpts_duplex_def duplex_assign_def init_swap_def Let_def)

theorem parseOpts_duplex_table_witness:
  "parseOpts_duplex
     (Some \<lparr>cupsBackSide = Some ''flipped'', APDuplexRequiresFlippedMargin = Some ''False'',
            flip_duplex = False\<rparr>) True False init_swap =
   \<lparr>swap_image_x = False, swap_image_y = True, swap_margin_x = False, swap_margin_y = True\<rparr>"
  using parseOpts_duplex_table
    [of "\<lparr>cupsBackSide = Some ''flipped'', APDuplexRequiresFlippedMargin = Some ''False'',
          flip_duplex = False\<rparr>" False]
  by (simp add: backside_of_def flippedMargin_of_def tolower_c_def)

text \<open>
  The claim as written fails where the attribute is absent: a PPD without \<open>cupsBackSide\<close>
  whose \<open>flip_duplex\<close> is set counts as \<open>"Rotated"\<close>, and without tumble all four flags are
  set.
\<close>

theorem parseOpts_duplex_absent_counterexample:
  "parseOpts_duplex
     (Some \<lparr>cupsBackSide = None, APDuplexRequiresFlippedMargin = None, flip_duplex = True\<rparr>)
     True False init_swap =
   \<lparr>swap_image_x = True, swap_image_y = True, swap_margin_x = True, swap_margin_y = True\<rparr>"
  by (simp add: parseOpts_duplex_def duplex_assign_def init_swap_def backside_of_def
      flippedMargin_of_def tolower_c_def)

subsection \<open>selectConvertFunc\<close>

lemma select_cspace_noop_iff:
  assumes "cs \<in> {CUPS_CSPACE_K, CUPS_CSPACE_W, CUPS_CSPACE_SW, CUPS_CSPACE_CMY, CUPS_CSPACE_CMYK,
              CUPS_CSPACE_RGB, CUPS_CSPACE_SRGB, CUPS_CSPACE_ADOBERGB}"
    and "colorspace \<in> {''/DeviceGray'', ''/DeviceRGB'', ''/DeviceCMYK''}"
  shows "select_cspace cs colorspace = convertcspaceNoop \<longleftrightarrow>
              (cs, colorspace) \<in>
                {(CUPS_CSPACE_W, ''/DeviceGray''), (CUPS_CSPACE_SW, ''/DeviceGray''),
                 (CUPS_CSPACE_CMYK, ''/DeviceCMYK''), (CUPS_CSPACE_RGB, ''/DeviceRGB''),
                 (CUPS_CSPACE_SRGB, ''/DeviceRGB''), (CUPS_CSPACE_ADOBERGB, ''/DeviceRGB'')}"
proof -
  from assms(2) consider "colorspace = ''/DeviceGray''" | "colorspace = ''/DeviceRGB''"
    | "colorspace = ''/DeviceCMYK''" by blast
  then show ?thesis
  proof cases
    case 1 with assms(1) show ?thesis by (cases cs) (simp_all add: select_cspace_def)
  next
    case 2 with assms(1) show ?thesis by (cases cs) (simp_all add: select_cspace_def)
  next
    case 3 with assms(1) show ?thesis by (cases cs) (simp_all add: select_cspace_def)
  qed
qed

lemma selectConvertFunc_Ok:
  assumes "colorspace \<in> {''/DeviceGray'', ''/DeviceRGB'', ''/DeviceCMYK''}"
  shows "\<exists>g'. selectConvertFunc colorspace pgno g = Ok g' \<and>
           convertcspace g' = Some (select_cspace (cupsColorSpace (header g)) colorspace)"
proof -
  from assms consider "colorspace = ''/DeviceGray''" | "colorspace = ''/DeviceRGB''"
    | "colorspace = ''/DeviceCMYK''" by blast
  then show ?thesis
    by cases (simp_all add: selectConvertFunc_def Let_def)
qed

text \<open>
  Claim C5. For each of the eight device colorspaces K, W, SW, CMY, CMYK, RGB, sRGB and
  AdobeRGB and each of the three source colorspaces, \<open>selectConvertFunc\<close> returns (it does not
  exit) and leaves a function in \<open>convertcspace\<close>, which is not null. The function is
  \<open>convertcspaceNoop\<close> exactly for the six pairs that the \<open>switch\<close> gives no function: W and SW
  with Gray, CMYK with CMYK, and RGB, sRGB and AdobeRGB with RGB. \<open>convertcspaceNoop\<close> returns
  its source row.
\<close>

theorem selectConvertFunc_total:
  assumes "cupsColorSpace (header g) \<in>
             {CUPS_CSPACE_K, CUPS_CSPACE_W, CUPS_CSPACE_SW, CUPS_CSPACE_CMY, CUPS_CSPACE_CMYK,
              CUPS_CSPACE_RGB, CUPS_CSPACE_SRGB, CUPS_CSPACE_ADOBERGB}"
    and "colorspace \<in> {''/DeviceGray'', ''/DeviceRGB'', ''/DeviceCMYK''}"
  shows "\<exists>g' f. selectConvertFunc colorspace pgno g = Ok g' \<and> convertcspace g' = Some f \<and>
           (f = convertcspaceNoop \<longleftrightarrow>
              (cupsColorSpace (header g), colorspace) \<in>
                {(CUPS_CSPACE_W, ''/DeviceGray''), (CUPS_CSPACE_SW, ''/DeviceGray''),
                 (CUPS_CSPACE_CMYK, ''/DeviceCMYK''), (CUPS_CSPACE_RGB, ''/DeviceRGB''),
                 (CUPS_CSPACE_SRGB, ''/DeviceRGB''), (CUPS_CSPACE_ADOBERGB, ''/DeviceRGB'')}) \<and>
           call_cspace lib convertcspaceNoop src dst row pixels = src"
proof -
  from selectConvertFunc_Ok [OF assms(2)] obtain g' where
    g': "selectConvertFunc colorspace pgno g = Ok g'"
        "convertcspace g' = Some (select_cspace (cupsColorSpace (header g)) colorspace)"
    by blast
  have noop: "call_cspace lib convertcspaceNoop src dst row pixels = src"
    by (simp add: call_cspace_def)
  show ?thesis
  proof (intro exI conjI)
    show "selectConvertFunc colorspace pgno g = Ok g'" by (rule g'(1))
    show "convertcspace g' = Some (select_cspace (cupsColorSpace (header g)) colorspace)"
      by (rule g'(2))
    show "select_cspace (cupsColorSpace (header g)) colorspace = convertcspaceNoop \<longleftrightarrow>
            (cupsColorSpace (header g), colorspace) \<in>
              {(CUPS_CSPACE_W, ''/DeviceGray''), (CUPS_CSPACE_SW, ''/DeviceGray''),
               (CUPS_CSPACE_CMYK, ''/DeviceCMYK''), (CUPS_CSPACE_RGB, ''/DeviceRGB''),
               (CUPS_CSPACE_SRGB, ''/DeviceRGB''), (CUPS_CSPACE_ADOBERGB, ''/DeviceRGB'')}"
      by (rule select_cspace_noop_iff [OF assms])
    show "call_cspace lib convertcspaceNoop src dst row pixels = src" by (rule noop)
  qed
qed

theorem selectConvertFunc_total_witness:
  "\<exists>g' f. selectConvertFunc ''/DeviceGray'' 1 demo_globals = Ok g' \<and>
      convertcspace g' = Some f \<and> f = convertcspaceNoop"
proof -
  from selectConvertFunc_total
         [of demo_globals "''/DeviceGray''" 1 "\<lambda>f src dst row pixels. []" "[]" "[]" 0 0]
  obtain g' f where "selectConvertFunc ''/DeviceGray'' 1 demo_globals = Ok g'"
    "convertcspace g' = Some f" "f = convertcspaceNoop"
    by (auto simp: demo_globals_def demo_header_def)
  then show ?thesis by blast
qed

subsection \<open>Machine integers\<close>

lemma ceil8: "int ((n + 7) div 8) = \<lceil>real n / 8\<rceil>"
  by linarith

lemma u32_small: "0 \<le> x \<Longrightarrow> x < 4294967296 \<Longrightarrow> int (u32 x) = x"
  by (simp add: u32_def)

lemma u32_int: "u32 (int n) = n mod 4294967296"
  unfolding u32_def by (metis nat_int of_nat_mod of_nat_numeral)

lemma c_rem_range: "- 360 < c_rem a 360 \<and> c_rem a 360 < 360"
proof -
  have "0 \<le> \<bar>a\<bar> mod 360" "\<bar>a\<bar> mod 360 < 360" by simp_all
  then show ?thesis by (cases "a < 0"; cases "a = 0") (simp_all add: c_rem_def sgn_if)
qed

lemma u32_angle:
  assumes "- 2147483648 \<le> r" "r \<le> 2147483647"
  shows "u32 r \<in> {0, 90, 180, 270} \<longleftrightarrow> r \<in> {0, 90, 180, 270}"
proof (cases "0 \<le> r")
  case True
  with assms have "int (u32 r) = r" by (intro u32_small) simp_all
  then show ?thesis by auto
next
  case False
  with assms have "r mod 4294967296 = r + 4294967296"
    by (smt (verit) mod_add_self2 mod_pos_pos_trivial)
  with False assms show ?thesis by (auto simp: u32_def)
qed


subsection \<open>The structure of outPage\<close>

lemmas demo_defs = demo_globals_def demo_header_def demo_page_def letter_def

lemmas page_defs = outPage_def mediaboxlookup_def hasKey_def page_rotate_def getIntValueAsInt_def
  assemble_page_def backside_margins_def size_header_def render_page_def fold_rotation_def
  colorspace_name_def selectConvertFunc_def select_cspace_def write_page_image_def band_lines_def
  u32_def s32_def c_rem_def Let_def

lemma size_header_keeps:
  "swap_image_x (size_header rot w h g) = swap_image_x g"
  "swap_image_y (size_header rot w h g) = swap_image_y g"
  "swap_margin_x (size_header rot w h g) = swap_margin_x g"
  "swap_margin_y (size_header rot w h g) = swap_margin_y g"
  "rowsize (size_header rot w h g) = rowsize g"
  "Duplex (header (size_header rot w h g)) = Duplex (header g)"
  by (simp_all add: size_header_def Let_def)

lemma assemble_page_keeps:
  "swap_image_x (fst (assemble_page g page pgno)) = swap_image_x g"
  "swap_image_y (fst (assemble_page g page pgno)) = swap_image_y g"
  "swap_margin_x (fst (assemble_page g page pgno)) = swap_margin_x g"
  "swap_margin_y (fst (assemble_page g page pgno)) = swap_margin_y g"
  "rowsize (fst (assemble_page g page pgno)) = rowsize g"
  "Duplex (header (fst (assemble_page g page pgno))) = Duplex (header g)"
  by (simp_all add: assemble_page_def Let_def split_def size_header_keeps)

lemma band_lines_shape:
  "ev \<in> set (band_lines g cd bp row plane) \<Longrightarrow>
     \<exists>sl. ev = WritePixels sl \<and> sl_bytes sl = bytesPerLine g \<and> sl_pixels sl = cupsWidth (header g)
        \<and> sl_convertline sl = convertline g"
  by (auto simp: band_lines_def)

lemma lines_backward_shape:
  "ev \<in> set (lines_backward n g cd bp plane) \<Longrightarrow>
     \<exists>sl. ev = WritePixels sl \<and> sl_bytes sl = bytesPerLine g \<and> sl_pixels sl = cupsWidth (header g)
        \<and> sl_convertline sl = convertline g"
  by (induction n arbitrary: bp) (auto dest: band_lines_shape)

lemma lines_forward_shape:
  "ev \<in> set (lines_forward n h g cd bp plane) \<Longrightarrow>
     \<exists>sl. ev = WritePixels sl \<and> sl_bytes sl = bytesPerLine g \<and> sl_pixels sl = cupsWidth (header g)
        \<and> sl_convertline sl = convertline g"
  by (induction n arbitrary: h bp) (auto dest: band_lines_shape)

lemma write_page_image_shape:
  "ev \<in> set (write_page_image g pgno cd) \<Longrightarrow>
     \<exists>sl. ev = WritePixels sl \<and> sl_bytes sl = bytesPerLine g \<and> sl_pixels sl = cupsWidth (header g)
        \<and> sl_convertline sl = convertline g"
  by (auto simp: write_page_image_def dest: lines_backward_shape lines_forward_shape split: if_splits)

lemma selectConvertFunc_keeps:
  assumes "selectConvertFunc cs pgno g = Ok g'"
  shows "swap_image_x g' = swap_image_x g" "swap_image_y g' = swap_image_y g"
    "swap_margin_x g' = swap_margin_x g" "swap_margin_y g' = swap_margin_y g"
    "header g' = header g" "bytesPerLine g' = bytesPerLine g"
    "convertline g' = Some (if Duplex (header g) \<and> odd pgno \<and> swap_image_x g
                            then LINE_convertReverseLine else LINE_convertLine)"
  using assms by (auto simp: selectConvertFunc_def Let_def split: if_splits)

lemma fold_rotation_keeps:
  "swap_margin_x (snd (fold_rotation rot pgno g)) = swap_margin_x g"
  "swap_margin_y (snd (fold_rotation rot pgno g)) = swap_margin_y g"
  "rowsize (snd (fold_rotation rot pgno g)) = rowsize g"
  "header (snd (fold_rotation rot pgno g)) = header g"
  "bytesPerLine (snd (fold_rotation rot pgno g)) = bytesPerLine g"
  by (simp_all add: fold_rotation_def)

lemma mediaboxlookup_no_exit: "mediaboxlookup object \<noteq> Exit n"
  by (simp add: mediaboxlookup_def Let_def)

lemma outPage_skipped:
  "mediaboxlookup (page_object page) = Ok (False, rect) \<Longrightarrow>
   outPage g page pgno = ([Log ''ERROR: pdf page doesn't contain a valid mediaBox''], Ok g)"
  by (simp add: outPage_def)

lemma outPage_undefined:
  "mediaboxlookup (page_object page) = Undefined \<Longrightarrow> outPage g page pgno = ([], Undefined)"
  by (simp add: outPage_def)

lemma outPage_no_header:
  "mediaboxlookup (page_object page) = Ok (True, rect) \<Longrightarrow> \<not> header_written page \<Longrightarrow>
   outPage g page pgno =
     ([Log ''DEBUG: mediaBox'', Log ''ERROR: Can't write page header''], Exit 1)"
  by (simp add: outPage_def split_def)

lemma outPage_rendered:
  "mediaboxlookup (page_object page) = Ok (True, rect) \<Longrightarrow> header_written page \<Longrightarrow>
   outPage g page pgno =
     ([Log ''DEBUG: mediaBox'', WriteHeader (header (fst (assemble_page g page pgno)))]
      @ fst (render_page (fst (assemble_page g page pgno)) page pgno (page_rotate page)
               (fst (snd (assemble_page g page pgno))) (snd (snd (assemble_page g page pgno)))),
      snd (render_page (fst (assemble_page g page pgno)) page pgno (page_rotate page)
               (fst (snd (assemble_page g page pgno))) (snd (snd (assemble_page g page pgno)))))"
  by (simp add: outPage_def split_def)

lemma render_page_CallRotate:
  "CallRotate a h w rs cs \<in> set (fst (render_page g page pgno rot cobj bitmap)) \<longleftrightarrow>
     fst (fold_rotation rot pgno g) \<noteq> 0 \<and> a = u32 (fst (fold_rotation rot pgno g)) \<and>
     h = cupsHeight (header g) \<and> w = cupsWidth (header g) \<and> rs = rowsize g \<and>
     cs = colorspace_name cobj"
proof -
  obtain r g1 where f: "fold_rotation rot pgno g = (r, g1)" by (cases "fold_rotation rot pgno g")
  have k: "header g1 = header g" "rowsize g1 = rowsize g"
    using fold_rotation_keeps(3,4) [of rot pgno g] f by simp_all
  have w: "CallRotate a h w rs cs \<notin> set (write_page_image g2 pgno cd)" for g2 cd
    using write_page_image_shape [of "CallRotate a h w rs cs" g2 pgno cd] by auto
  show ?thesis
    by (auto simp: render_page_def Let_def f k w split: result.splits)
qed

lemma render_page_state:
  assumes "snd (render_page g page pgno rot cobj bitmap) = Ok g'"
  shows "selectConvertFunc (colorspace_name cobj) pgno
           (snd (fold_rotation rot pgno g)) = Ok g'"
  using assms
  by (auto simp: render_page_def Let_def split_def split: result.splits if_splits)

lemma render_page_WritePixels:
  assumes "WritePixels sl \<in> set (fst (render_page g page pgno rot cobj bitmap))"
  shows "sl_bytes sl = bytesPerLine g \<and> sl_pixels sl = cupsWidth (header g) \<and>
         sl_convertline sl = Some (if Duplex (header g) \<and> odd pgno \<and>
                                      swap_image_x (snd (fold_rotation rot pgno g))
                                   then LINE_convertReverseLine else LINE_convertLine)"
proof -
  obtain r g1 where f: "fold_rotation rot pgno g = (r, g1)" by (cases "fold_rotation rot pgno g")
  have k: "header g1 = header g" "bytesPerLine g1 = bytesPerLine g"
    using fold_rotation_keeps(4,5) [of rot pgno g] f by simp_all
  from assms obtain g2 cd where
    s: "selectConvertFunc (colorspace_name cobj) pgno g1 = Ok g2"
    and m: "WritePixels sl \<in> set (write_page_image g2 pgno cd)"
    by (auto simp: render_page_def Let_def f split: result.splits if_splits)
  from write_page_image_shape [OF m] selectConvertFunc_keeps [OF s] k f
  show ?thesis by auto
qed

lemma render_page_no_header:
  "WriteHeader hdr \<notin> set (fst (render_page g page pgno rot cobj bitmap))"
proof -
  have w: "WriteHeader hdr \<notin> set (write_page_image g2 pgno cd)" for g2 cd
    using write_page_image_shape [of "WriteHeader hdr" g2 pgno cd] by auto
  show ?thesis
    by (auto simp: render_page_def Let_def split_def w split: result.splits)
qed

lemma size_header_bytes:
  "cupsBytesPerLine (header (size_header rot w h g)) =
     (if cupsColorOrder (header (size_header rot w h g)) = CUPS_ORDER_BANDED
      then u32 (int (bytesPerLine (size_header rot w h g))
                * int (cupsNumColors (header (size_header rot w h g))))
      else bytesPerLine (size_header rot w h g))"
  "bytesPerLine (size_header rot w h g) =
     u32 (int (cupsBitsPerPixel (header (size_header rot w h g)))
          * int (cupsWidth (header (size_header rot w h g))) + 7) div 8"
  by (simp_all add: size_header_def Let_def)

lemma assemble_page_bytes:
  "cupsBytesPerLine (header (fst (assemble_page g page pgno))) =
     (if cupsColorOrder (header (fst (assemble_page g page pgno))) = CUPS_ORDER_BANDED
      then u32 (int (bytesPerLine (fst (assemble_page g page pgno)))
                * int (cupsNumColors (header (fst (assemble_page g page pgno)))))
      else bytesPerLine (fst (assemble_page g page pgno)))"
  "bytesPerLine (fst (assemble_page g page pgno)) =
     u32 (int (cupsBitsPerPixel (header (fst (assemble_page g page pgno))))
          * int (cupsWidth (header (fst (assemble_page g page pgno)))) + 7) div 8"
  using size_header_bytes by (simp_all add: assemble_page_def Let_def split_def)

lemma outPage_cases:
  obtains (skipped) rect where "mediaboxlookup (page_object page) = Ok (False, rect)"
  | (undefined) "mediaboxlookup (page_object page) = Undefined"
  | (no_header) rect where "mediaboxlookup (page_object page) = Ok (True, rect)" "\<not> header_written page"
  | (rendered) rect where "mediaboxlookup (page_object page) = Ok (True, rect)" "header_written page"
proof (cases "mediaboxlookup (page_object page)")
  case (Ok vr) then show ?thesis using that by (cases vr) (cases "header_written page"; auto)
next
  case (Exit n) then show ?thesis using mediaboxlookup_no_exit by blast
next
  case Undefined then show ?thesis using that by blast
qed

lemma page_rotate_range: "- 2147483648 \<le> page_rotate page \<and> page_rotate page \<le> 2147483647"
  by (simp add: page_rotate_def getIntValueAsInt_def Let_def)

lemma fold_rotation_range:
  "- 2147483648 \<le> rot \<Longrightarrow> rot \<le> 2147483647 \<Longrightarrow>
   - 2147483648 \<le> fst (fold_rotation rot pgno g) \<and> fst (fold_rotation rot pgno g) \<le> 2147483647"
  using c_rem_range [of "rot + 180"] by (auto simp: fold_rotation_def)

lemma fold_rotation_assemble:
  "fst (fold_rotation rot pgno (fst (assemble_page g page pgno))) = fst (fold_rotation rot pgno g)"
  by (simp add: fold_rotation_def assemble_page_keeps)

lemma rotatebitmap_bad_angle:
  "angle \<notin> {0, 90, 180, 270} \<Longrightarrow> rotatebitmap src dst angle h w rs cs = Exit 1"
  by (simp add: rotatebitmap_def)

lemma render_page_bad_angle:
  assumes "u32 (fst (fold_rotation rot pgno g)) \<notin> {0, 90, 180, 270}"
  shows "render_page g page pgno rot cobj bitmap =
           ([CallRotate (u32 (fst (fold_rotation rot pgno g))) (cupsHeight (header g))
               (cupsWidth (header g)) (rowsize g) (colorspace_name cobj),
             Log ''ERROR: Incorrect Rotate Value''], Exit 1)"
proof -
  obtain r g1 where f: "fold_rotation rot pgno g = (r, g1)" by (cases "fold_rotation rot pgno g")
  have k: "header g1 = header g" "rowsize g1 = rowsize g"
    using fold_rotation_keeps(3,4) [of rot pgno g] f by simp_all
  from assms f have a: "u32 r \<notin> {0, 90, 180, 270}" by simp
  then have "r \<noteq> 0" by (auto simp: u32_def)
  with rotatebitmap_bad_angle [OF a] show ?thesis
    by (simp add: render_page_def f k Let_def)
qed


subsection \<open>Bytes per line\<close>

text \<open>
  Claim C6, as the code has it. For every page that gets a header, with \<open>b\<close> the value of the
  unsigned expression \<open>(cupsBitsPerPixel * cupsWidth + 7) / 8\<close> on the fields of that header:
  the header's \<open>cupsBytesPerLine\<close> is \<open>b\<close>, multiplied (unsigned) by \<open>cupsNumColors\<close> exactly
  when the color order is banded; every scanline of the page is written with \<open>b\<close> bytes; and
  \<open>b\<close> is the ceiling of \<open>cupsBitsPerPixel * cupsWidth / 8\<close> whenever
  \<open>cupsBitsPerPixel * cupsWidth + 7\<close> is below \<open>2^32\<close>, so that the unsigned sum does not wrap.
\<close>

theorem outPage_bytes_per_line:
  assumes "WriteHeader hdr \<in> set (fst (outPage g page pgno))"
  shows "cupsBytesPerLine hdr =
           (if cupsColorOrder hdr = CUPS_ORDER_BANDED
            then u32 (int (u32 (int (cupsBitsPerPixel hdr) * int (cupsWidth hdr) + 7) div 8)
                      * int (cupsNumColors hdr))
            else u32 (int (cupsBitsPerPixel hdr) * int (cupsWidth hdr) + 7) div 8) \<and>
         (\<forall>sl. WritePixels sl \<in> set (fst (outPage g page pgno)) \<longrightarrow>
            sl_bytes sl = u32 (int (cupsBitsPerPixel hdr) * int (cupsWidth hdr) + 7) div 8) \<and>
         (cupsBitsPerPixel hdr * cupsWidth hdr + 7 < 4294967296 \<longrightarrow>
            int (u32 (int (cupsBitsPerPixel hdr) * int (cupsWidth hdr) + 7) div 8) =
              \<lceil>real (cupsBitsPerPixel hdr * cupsWidth hdr) / 8\<rceil>)"
proof (cases rule: outPage_cases [of page])
  case (skipped rect) with assms show ?thesis by (simp add: outPage_skipped)
next
  case undefined with assms show ?thesis by (simp add: outPage_undefined)
next
  case (no_header rect) with assms show ?thesis by (simp add: outPage_no_header)
next
  case (rendered rect)
  let ?g2 = "fst (assemble_page g page pgno)"
  note o = outPage_rendered [OF rendered, of g pgno]
  from assms have h: "hdr = header ?g2"
    by (simp add: o render_page_no_header)
  have 1: "cupsBytesPerLine hdr =
           (if cupsColorOrder hdr = CUPS_ORDER_BANDED
            then u32 (int (u32 (int (cupsBitsPerPixel hdr) * int (cupsWidth hdr) + 7) div 8)
                      * int (cupsNumColors hdr))
            else u32 (int (cupsBitsPerPixel hdr) * int (cupsWidth hdr) + 7) div 8)"
    unfolding h using assemble_page_bytes [of g page pgno] by simp
  have 2: "sl_bytes sl = u32 (int (cupsBitsPerPixel hdr) * int (cupsWidth hdr) + 7) div 8"
    if "WritePixels sl \<in> set (fst (outPage g page pgno))" for sl
  proof -
    from that have "WritePixels sl \<in> set (fst (render_page ?g2 page pgno (page_rotate page)
               (fst (snd (assemble_page g page pgno))) (snd (snd (assemble_page g page pgno)))))"
      by (simp add: o)
    from render_page_WritePixels [OF this] show ?thesis
      unfolding h using assemble_page_bytes(2) [of g page pgno] by simp
  qed
  have 3: "int (u32 (int (cupsBitsPerPixel hdr) * int (cupsWidth hdr) + 7) div 8) =
              \<lceil>real (cupsBitsPerPixel hdr * cupsWidth hdr) / 8\<rceil>"
    if "cupsBitsPerPixel hdr * cupsWidth hdr + 7 < 4294967296"
  proof -
    have "u32 (int (cupsBitsPerPixel hdr) * int (cupsWidth hdr) + 7)
            = u32 (int (cupsBitsPerPixel hdr * cupsWidth hdr + 7))"
      by simp
    also have "\<dots> = cupsBitsPerPixel hdr * cupsWidth hdr + 7"
      using that by (simp only: u32_int mod_less)
    finally have "u32 (int (cupsBitsPerPixel hdr) * int (cupsWidth hdr) + 7)
            = cupsBitsPerPixel hdr * cupsWidth hdr + 7" .
    then show ?thesis using ceil8 [of "cupsBitsPerPixel hdr * cupsWidth hdr"] by simp
  qed
  from 1 2 3 show ?thesis by blast
qed

theorem outPage_bytes_per_line_witness:
  "WriteHeader (demo_header\<lparr>cupsWidth := 100, cupsHeight := 1, cupsBytesPerLine := 100,
                             geometry := (1, 2, 3, 4)\<rparr>)
     \<in> set (fst (outPage demo_globals (demo_page letter 0 100 1 ''/DeviceGray'' []) 0)) \<and>
   (100 :: int) = \<lceil>real (8 * 100) / 8\<rceil>"
proof -
  have m: "WriteHeader (demo_header\<lparr>cupsWidth := 100, cupsHeight := 1, cupsBytesPerLine := 100,
                             geometry := (1, 2, 3, 4)\<rparr>)
     \<in> set (fst (outPage demo_globals (demo_page letter 0 100 1 ''/DeviceGray'' []) 0))"
    by (simp add: demo_defs page_defs)
  from outPage_bytes_per_line [OF m] m show ?thesis
    by (simp add: demo_defs u32_def)
qed

text \<open>
  The two examples of the claim, and a banded header of three colors.
\<close>

lemma bytes_per_line_examples:
  "bytesPerLine (size_header 0 100 1 (demo_globals)) = 100"
  "cupsBytesPerLine (header (size_header 0 100 1 demo_globals)) = 100"
  "bytesPerLine (size_header 0 10 1
      (demo_globals\<lparr>header := demo_header\<lparr>cupsBitsPerColor := 1, cupsBitsPerPixel := 1\<rparr>\<rparr>)) = 2"
  "cupsBytesPerLine (header (size_header 0 100 1
      (demo_globals\<lparr>header := demo_header\<lparr>cupsNumColors := 3, cupsColorOrder := CUPS_ORDER_BANDED\<rparr>\<rparr>)))
     = 300"
  by (simp_all add: size_header_def demo_defs u32_def Let_def)

text \<open>
  Without the bound the claim fails: at 8 bits per pixel a page whose image is 536870912
  pixels wide has \<open>8 * 536870912 = 2^32\<close> bits per row, the unsigned product is 0, and the
  header and the scanline are written with 0 bytes per line, not with 536870912.
\<close>

theorem outPage_bytes_per_line_wrap_counterexample:
  "fst (outPage demo_globals (demo_page letter 0 536870912 1 ''/DeviceGray'' []) 0) =
     [Log ''DEBUG: mediaBox'',
      WriteHeader (demo_header\<lparr>cupsWidth := 536870912, cupsHeight := 1, cupsBytesPerLine := 0,
                               geometry := (1, 2, 3, 4)\<rparr>),
      WritePixels \<lparr>sl_convertline = Some LINE_convertLine,
         sl_convertcspace = Some convertcspaceNoop, sl_colordata = [], sl_bp = 0, sl_row = 0,
         sl_plane = 0, sl_pixels = 536870912, sl_bytes = 0\<rparr>]"
  by (simp add: demo_defs page_defs)


subsection \<open>Pages without a media box\<close>

text \<open>
  A page is skipped exactly when it is no dictionary, has no \<open>/MediaBox\<close>, or has a
  \<open>/MediaBox\<close> of more than four elements; then \<open>outPage\<close> writes one line to \<open>stderr\<close>, no
  header and no scanline, and returns with the variables unchanged. A \<open>/MediaBox\<close> of fewer
  than four elements (or one that is no array) is read outside the vector.
\<close>

lemma mediaboxlookup_false_iff:
  "(\<exists>rect. mediaboxlookup object = Ok (False, rect)) \<longleftrightarrow>
     \<not> isDictionary object \<or> \<not> hasKey object ''/MediaBox'' \<or>
     4 < length (getArrayAsVector (getKey object ''/MediaBox''))"
  by (auto simp: mediaboxlookup_def Let_def)

lemma mediaboxlookup_undefined_iff:
  "mediaboxlookup object = Undefined \<longleftrightarrow>
     isDictionary object \<and> hasKey object ''/MediaBox'' \<and>
     length (getArrayAsVector (getKey object ''/MediaBox'')) < 4"
  by (auto simp: mediaboxlookup_def Let_def)


text \<open>
  Claim C8 at a page whose \<open>/MediaBox\<close> has three numbers: the loop of \<open>mediaboxlookup\<close> reads
  \<open>mediabox[3]\<close> before the test of the size, so the page is not skipped with a logged line;
  the behaviour of the program is undefined from there.
\<close>

theorem outPage_short_mediabox:
  "outPage demo_globals
     (demo_page [PdfInteger 0, PdfInteger 0, PdfInteger 612] 0 3 2 ''/DeviceGray''
        [1, 2, 3, 4, 5, 6]) 0
   = ([], Undefined)"
  by (simp add: demo_defs page_defs)


subsection \<open>Rotations that are not supported\<close>

text \<open>
  Claim C9, as the code has it. A page that has a media box, whose header was written, and
  whose rotation after the duplex fold is none of 0, 90, 180 and 270 ends the process with
  \<open>exit(1)\<close> in \<open>rotatebitmap\<close>: by then the trace of the page holds its header, which was
  written before, and no scanline.
\<close>

theorem outPage_bad_rotation:
  assumes "mediaboxlookup (page_object page) = Ok (True, rect)"
    and "header_written page"
    and "fst (fold_rotation (page_rotate page) pgno g) \<notin> {0, 90, 180, 270}"
  shows "outPage g page pgno =
           ([Log ''DEBUG: mediaBox'',
             WriteHeader (header (fst (assemble_page g page pgno))),
             CallRotate (u32 (fst (fold_rotation (page_rotate page) pgno g)))
               (cupsHeight (header (fst (assemble_page g page pgno))))
               (cupsWidth (header (fst (assemble_page g page pgno)))) (rowsize g)
               (colorspace_name (fst (snd (assemble_page g page pgno)))),
             Log ''ERROR: Incorrect Rotate Value''],
            Exit 1)"
proof -
  let ?g2 = "fst (assemble_page g page pgno)"
  have "u32 (fst (fold_rotation (page_rotate page) pgno g)) \<notin> {0, 90, 180, 270}"
    using u32_angle fold_rotation_range page_rotate_range assms(3) by blast
  then have "u32 (fst (fold_rotation (page_rotate page) pgno ?g2)) \<notin> {0, 90, 180, 270}"
    by (simp add: fold_rotation_assemble)
  from render_page_bad_angle [OF this] show ?thesis
    by (simp add: outPage_rendered [OF assms(1,2)] fold_rotation_assemble assemble_page_keeps)
qed

theorem outPage_bad_rotation_witness:
  "outPage demo_globals (demo_page letter 45 3 2 ''/DeviceGray'' [1, 2, 3, 4, 5, 6]) 1 =
     ([Log ''DEBUG: mediaBox'',
       WriteHeader (demo_header\<lparr>cupsWidth := 3, cupsHeight := 2, cupsBytesPerLine := 3,
                                geometry := (3, 4, 1, 2)\<rparr>),
       CallRotate 225 2 3 0 ''/DeviceGray'',
       Log ''ERROR: Incorrect Rotate Value''], Exit 1)"
proof -
  have 1: "mediaboxlookup (page_object (demo_page letter 45 3 2 ''/DeviceGray'' [1, 2, 3, 4, 5, 6]))
             = Ok (True, [0, 0, 612, 792])"
    by (simp add: demo_defs mediaboxlookup_def hasKey_def)
  have 2: "header_written (demo_page letter 45 3 2 ''/DeviceGray'' [1, 2, 3, 4, 5, 6])"
    by (simp add: demo_defs)
  have 3: "fst (fold_rotation (page_rotate (demo_page letter 45 3 2 ''/DeviceGray'' [1, 2, 3, 4, 5, 6]))
             1 demo_globals) \<notin> {0, 90, 180, 270}"
    by (simp add: demo_defs page_defs)
  show ?thesis
    using outPage_bad_rotation [OF 1 2 3]
    by (simp add: demo_defs page_defs)
qed

text \<open>
  The claim as written fails on the header: a front page with \<open>/Rotate 45\<close> has its header
  written before the process exits.
\<close>

theorem outPage_bad_rotation_header_counterexample:
  "outPage demo_globals (demo_page letter 45 3 2 ''/DeviceGray'' [1, 2, 3, 4, 5, 6]) 0 =
     ([Log ''DEBUG: mediaBox'',
       WriteHeader (demo_header\<lparr>cupsWidth := 3, cupsHeight := 2, cupsBytesPerLine := 3,
                                geometry := (1, 2, 3, 4)\<rparr>),
       CallRotate 45 2 3 0 ''/DeviceGray'',
       Log ''ERROR: Incorrect Rotate Value''], Exit 1)"
  by (simp add: demo_defs page_defs rotatebitmap_def)


subsection \<open>The swap flags in outPage\<close>

lemma put_swaps_fields:
  "header (put_swaps s g) = header g" "rowsize (put_swaps s g) = rowsize g"
  "convertline (put_swaps s g) = convertline g" "convertcspace (put_swaps s g) = convertcspace g"
  "bytesPerLine (put_swaps s g) = bytesPerLine g" "nbands (put_swaps s g) = nbands g"
  "nplanes (put_swaps s g) = nplanes g"
  by (simp_all add: put_swaps_def)

lemma band_lines_put_swaps:
  "band_lines (put_swaps s g) cd bp row plane = band_lines g cd bp row plane"
  by (simp add: band_lines_def put_swaps_fields)

lemma lines_forward_put_swaps:
  "lines_forward n h (put_swaps s g) cd bp plane = lines_forward n h g cd bp plane"
  by (induction n arbitrary: h bp) (simp_all add: band_lines_put_swaps put_swaps_fields)

lemma lines_forward_put_swaps':
  "lines_forward n h (put_swaps s g) cd bp = lines_forward n h g cd bp"
  by (rule ext) (rule lines_forward_put_swaps)

lemma write_page_image_put_swaps:
  "\<not> (Duplex (header g) \<and> odd pgno) \<Longrightarrow>
   write_page_image (put_swaps s g) pgno cd = write_page_image g pgno cd"
  by (auto simp: write_page_image_def put_swaps_fields lines_forward_put_swaps')

lemma size_header_put_swaps:
  "size_header rot w h (put_swaps s g) = put_swaps s (size_header rot w h g)"
  by (simp add: size_header_def put_swaps_def Let_def)

lemma assemble_page_put_swaps:
  assumes "\<not> (Duplex (header g) \<and> odd pgno)"
  shows "assemble_page (put_swaps s g) page pgno =
     (put_swaps s (fst (assemble_page g page pgno)), snd (assemble_page g page pgno))"
proof -
  have b: "backside_margins (put_swaps s g) pgno m = m" "backside_margins g pgno m = m" for m
    using assms by (auto simp: backside_margins_def put_swaps_fields)
  have h: "(put_swaps s g)\<lparr>header := x\<rparr> = put_swaps s (g\<lparr>header := x\<rparr>)" for x
    by (simp add: put_swaps_def)
  show ?thesis
    by (simp add: assemble_page_def b h put_swaps_fields size_header_put_swaps Let_def split_def)
qed

lemma selectConvertFunc_put_swaps:
  "\<not> (Duplex (header g) \<and> odd pgno) \<Longrightarrow>
   selectConvertFunc cs pgno (put_swaps s g) = map_result (put_swaps s) (selectConvertFunc cs pgno g)"
  by (auto simp: selectConvertFunc_def Let_def put_swaps_def)

lemma render_page_put_swaps:
  assumes "\<not> (Duplex (header g) \<and> odd pgno)"
  shows "render_page (put_swaps s g) page pgno rot cobj bitmap =
     (fst (render_page g page pgno rot cobj bitmap),
      map_result (put_swaps s) (snd (render_page g page pgno rot cobj bitmap)))"
proof -
  have f: "fold_rotation rot pgno (put_swaps s g) = (rot, put_swaps s g)"
          "fold_rotation rot pgno g = (rot, g)"
    using assms by (auto simp: fold_rotation_def put_swaps_fields)
  have w: "write_page_image g2 pgno cd = write_page_image g3 pgno cd"
    if "selectConvertFunc cs pgno (put_swaps s g) = Ok g2" "selectConvertFunc cs pgno g = Ok g3"
    for g2 g3 cs cd
  proof -
    from that selectConvertFunc_put_swaps [OF assms, of cs s] have "g2 = put_swaps s g3" by simp
    moreover from that(2) have "header g3 = header g"
      by (auto simp: selectConvertFunc_def Let_def split: if_splits)
    ultimately show ?thesis using write_page_image_put_swaps [of g3 pgno s cd] assms by simp
  qed
  show ?thesis
    unfolding render_page_def f Let_def
    using selectConvertFunc_put_swaps [OF assms, of "colorspace_name cobj" s]
    by (auto simp: put_swaps_fields split: result.splits dest: w)
qed

lemma outPage_put_swaps:
  assumes "\<not> (Duplex (header g) \<and> odd pgno)"
  shows "outPage (put_swaps s g) page pgno =
           (fst (outPage g page pgno), map_result (put_swaps s) (snd (outPage g page pgno)))"
proof -
  have d: "\<not> (Duplex (header (fst (assemble_page g page pgno))) \<and> odd pgno)"
    using assms by (simp add: assemble_page_def Let_def split_def size_header_def)
  show ?thesis
    unfolding outPage_def assemble_page_put_swaps [OF assms]
    using render_page_put_swaps [OF d, of s page]
    by (auto simp: split_def put_swaps_fields split: result.splits)
qed

lemma outPage_fold_applied:
  assumes m: "mediaboxlookup (page_object page) = Ok (True, rect)" and hw: "header_written page"
    and b: "Duplex (header g)" "odd pgno" "swap_image_x g" "swap_image_y g"
  shows "((\<exists>h w rs cs. CallRotate a h w rs cs \<in> set (fst (outPage g page pgno))) \<longleftrightarrow>
            c_rem (page_rotate page + 180) 360 \<noteq> 0 \<and>
            a = u32 (c_rem (page_rotate page + 180) 360))"
    and "WritePixels sl \<in> set (fst (outPage g page pgno)) \<Longrightarrow>
           sl_convertline sl = Some LINE_convertLine"
    and "snd (outPage g page pgno) = Ok g' \<Longrightarrow> \<not> swap_image_x g' \<and> \<not> swap_image_y g'"
proof -
  let ?g2 = "fst (assemble_page g page pgno)"
  let ?rp = "render_page ?g2 page pgno (page_rotate page)
               (fst (snd (assemble_page g page pgno))) (snd (snd (assemble_page g page pgno)))"
  note o = outPage_rendered [OF m hw, of g pgno]
  have f: "fold_rotation (page_rotate page) pgno ?g2 =
             (c_rem (page_rotate page + 180) 360,
              ?g2\<lparr>swap_image_y := False, swap_image_x := False\<rparr>)"
    using b by (simp add: fold_rotation_def assemble_page_keeps)
  show "((\<exists>h w rs cs. CallRotate a h w rs cs \<in> set (fst (outPage g page pgno))) \<longleftrightarrow>
            c_rem (page_rotate page + 180) 360 \<noteq> 0 \<and>
            a = u32 (c_rem (page_rotate page + 180) 360))"
    by (simp add: o render_page_CallRotate f)
  show "sl_convertline sl = Some LINE_convertLine"
    if "WritePixels sl \<in> set (fst (outPage g page pgno))"
  proof -
    from that have "WritePixels sl \<in> set (fst ?rp)" by (simp add: o)
    from render_page_WritePixels [OF this] show ?thesis by (simp add: f)
  qed
  show "\<not> swap_image_x g' \<and> \<not> swap_image_y g'" if "snd (outPage g page pgno) = Ok g'"
  proof -
    from that have "snd ?rp = Ok g'" by (simp add: o)
    from selectConvertFunc_keeps(1,2) [OF render_page_state [OF this]] show ?thesis
      by (simp add: f)
  qed
qed

lemma outPage_flags_kept:
  assumes "snd (outPage g page pgno) = Ok g'"
  shows "swap_margin_x g' = swap_margin_x g \<and> swap_margin_y g' = swap_margin_y g \<and>
         (\<not> (Duplex (header g) \<and> odd pgno \<and> swap_image_x g \<and> swap_image_y g) \<longrightarrow>
            swap_image_x g' = swap_image_x g \<and> swap_image_y g' = swap_image_y g)"
proof (cases rule: outPage_cases [of page])
  case (skipped rect) with assms show ?thesis by (simp add: outPage_skipped)
next
  case undefined with assms show ?thesis by (simp add: outPage_undefined)
next
  case (no_header rect) with assms show ?thesis by (simp add: outPage_no_header)
next
  case (rendered rect)
  let ?g2 = "fst (assemble_page g page pgno)"
  from assms have "snd (render_page ?g2 page pgno (page_rotate page)
               (fst (snd (assemble_page g page pgno))) (snd (snd (assemble_page g page pgno))))
             = Ok g'"
    by (simp add: outPage_rendered [OF rendered])
  from selectConvertFunc_keeps(1-4) [OF render_page_state [OF this]]
  show ?thesis
    by (auto simp: fold_rotation_keeps assemble_page_keeps fold_rotation_def)
qed

text \<open>
  One page. (1) On a duplex backside page (odd page index) that reaches the rotation, with
  both image flags set when the page is begun, \<open>rotatebitmap\<close> is called with the page's
  rotation plus 180 degrees modulo 360 (and not called when that is 0); both image flags are
  cleared before: the row function chosen afterwards is \<open>convertLine\<close>, not the mirrored one,
  and the flags are false when the page returns. (2) When a page returns, the margin flags
  are as before, and so are the image flags unless the page was such a folded page. (3) On
  a page that is no duplex backside page the flags are not consulted: with any other four
  flags \<open>s\<close> in place the page has the same trace and leaves the same variables, up to those
  flags.
\<close>

theorem outPage_swap_flags:
  "(mediaboxlookup (page_object page) = Ok (True, rect) \<and> header_written page \<and>
      Duplex (header g) \<and> odd pgno \<and> swap_image_x g \<and> swap_image_y g \<longrightarrow>
        (\<forall>a. (\<exists>h w rs cs. CallRotate a h w rs cs \<in> set (fst (outPage g page pgno))) \<longleftrightarrow>
              c_rem (page_rotate page + 180) 360 \<noteq> 0 \<and>
              a = u32 (c_rem (page_rotate page + 180) 360)) \<and>
        (\<forall>sl. WritePixels sl \<in> set (fst (outPage g page pgno)) \<longrightarrow>
              sl_convertline sl = Some LINE_convertLine) \<and>
        (\<forall>g'. snd (outPage g page pgno) = Ok g' \<longrightarrow> \<not> swap_image_x g' \<and> \<not> swap_image_y g'))
   \<and> (\<forall>g'. snd (outPage g page pgno) = Ok g' \<longrightarrow>
        swap_margin_x g' = swap_margin_x g \<and> swap_margin_y g' = swap_margin_y g \<and>
        (\<not> (Duplex (header g) \<and> odd pgno \<and> swap_image_x g \<and> swap_image_y g) \<longrightarrow>
           swap_image_x g' = swap_image_x g \<and> swap_image_y g' = swap_image_y g))
   \<and> (\<not> (Duplex (header g) \<and> odd pgno) \<longrightarrow>
        outPage (put_swaps s g) page pgno =
          (fst (outPage g page pgno), map_result (put_swaps s) (snd (outPage g page pgno))))"
  using outPage_fold_applied [of page rect g pgno] outPage_flags_kept [of g page pgno]
    outPage_put_swaps [of g pgno s page]
  by blast

theorem outPage_swap_flags_witness:
  "(\<exists>h w rs cs. CallRotate 180 h w rs cs \<in>
       set (fst (outPage (demo_globals\<lparr>rowsize := 3\<rparr>)
                   (demo_page letter 0 3 2 ''/DeviceGray'' [1, 2, 3, 4, 5, 6]) 1))) \<and>
   (\<exists>g'. snd (outPage (demo_globals\<lparr>rowsize := 3\<rparr>)
                  (demo_page letter 0 3 2 ''/DeviceGray'' [1, 2, 3, 4, 5, 6]) 1) = Ok g' \<and>
         \<not> swap_image_x g' \<and> \<not> swap_image_y g' \<and> swap_margin_x g' \<and> swap_margin_y g')"
proof -
  let ?G = "demo_globals\<lparr>rowsize := 3\<rparr>"
  let ?P = "demo_page letter 0 3 2 ''/DeviceGray'' [1, 2, 3, 4, 5, 6]"
  have m: "mediaboxlookup (page_object ?P) = Ok (True, [0, 0, 612, 792])"
    by (simp add: demo_defs mediaboxlookup_def hasKey_def)
  have h: "header_written ?P" "Duplex (header ?G)" "odd (1::nat)" "swap_image_x ?G"
    "swap_image_y ?G" "swap_margin_x ?G" "swap_margin_y ?G"
    by (simp_all add: demo_defs)
  have r: "c_rem (page_rotate ?P + 180) 360 = 180"
    by (simp add: demo_defs page_rotate_def getIntValueAsInt_def c_rem_def)
  have u: "u32 180 = 180" by (simp add: u32_def)
  have "snd (outPage ?G ?P 1) =
          Ok (demo_globals\<lparr>swap_image_x := False, swap_image_y := False,
                convertcspace := Some convertcspaceNoop, convertline := Some LINE_convertLine,
                numcolors := 1, rowsize := 3, bytesPerLine := 3,
                header := demo_header\<lparr>cupsWidth := 3, cupsHeight := 2, cupsBytesPerLine := 3,
                                       geometry := (3, 4, 1, 2)\<rparr>\<rparr>)"
    by code_simp
  then have ok: "\<exists>g'. snd (outPage ?G ?P 1) = Ok g'"
    by blast
  from outPage_swap_flags [of ?P "[0, 0, 612, 792]" ?G 1] m h r u ok
  show ?thesis by (metis zero_neq_numeral)
qed

text \<open>
  The flags are file-level variables. A page that does not find both image flags set is
  rotated by its own \<open>/Rotate\<close> only, and the flags that a folded page cleared stay cleared
  for the pages after it: in a job of four equal pages that starts with the flags of a
  \<open>Rotated\<close> backside, page 1 is turned by 180 degrees and page 3 is not.
\<close>

lemma main_globals_demo: "main_globals demo_header (Some demo_ppd) 0 = Ok demo_globals"
  by code_simp

lemma outPage_not_folded:
  assumes m: "mediaboxlookup (page_object page) = Ok (True, rect)" and hw: "header_written page"
    and b: "\<not> (swap_image_x g \<and> swap_image_y g)"
  shows "(\<exists>h w rs cs. CallRotate a h w rs cs \<in> set (fst (outPage g page pgno))) \<longleftrightarrow>
           page_rotate page \<noteq> 0 \<and> a = u32 (page_rotate page)"
proof -
  let ?g2 = "fst (assemble_page g page pgno)"
  note o = outPage_rendered [OF m hw, of g pgno]
  have f: "fold_rotation (page_rotate page) pgno ?g2 = (page_rotate page, ?g2)"
    using b by (auto simp: fold_rotation_def assemble_page_keeps)
  show ?thesis
    by (simp add: o render_page_CallRotate f)
qed

lemma process_pages_fold_once:
  "map (filter (\<lambda>e. case e of CallRotate a h w rs cs \<Rightarrow> True | _ \<Rightarrow> False))
     (fst (process_pages demo_globals
             (replicate 4 (demo_page letter 0 3 2 ''/DeviceGray'' [1, 2, 3, 4, 5, 6])) 0)) =
   [[], [CallRotate 180 2 3 3 ''/DeviceGray''], [], []]"
  by code_simp

lemma outPage_Duplex:
  assumes "snd (outPage g page pgno) = Ok g'"
  shows "Duplex (header g') = Duplex (header g)"
proof (cases rule: outPage_cases [of page])
  case (skipped rect) with assms show ?thesis by (simp add: outPage_skipped)
next
  case undefined with assms show ?thesis by (simp add: outPage_undefined)
next
  case (no_header rect) with assms show ?thesis by (simp add: outPage_no_header)
next
  case (rendered rect)
  let ?g2 = "fst (assemble_page g page pgno)"
  from assms have "snd (render_page ?g2 page pgno (page_rotate page)
               (fst (snd (assemble_page g page pgno))) (snd (snd (assemble_page g page pgno))))
             = Ok g'"
    by (simp add: outPage_rendered [OF rendered])
  from selectConvertFunc_keeps(5) [OF render_page_state [OF this]]
  show ?thesis
    by (simp add: fold_rotation_keeps assemble_page_keeps)
qed

lemma outPage_backside_clears:
  assumes "mediaboxlookup (page_object page) = Ok (True, rect)" "header_written page"
    and "Duplex (header g)" "odd pgno" "snd (outPage g page pgno) = Ok g'"
  shows "\<not> (swap_image_x g' \<and> swap_image_y g')"
  using outPage_fold_applied(3) [OF assms(1-4), of g'] outPage_flags_kept [OF assms(5)] assms(5)
  by blast

lemma outPage_unset_kept:
  assumes "\<not> (swap_image_x g \<and> swap_image_y g)" "snd (outPage g page pgno) = Ok g'"
  shows "\<not> (swap_image_x g' \<and> swap_image_y g')"
  using outPage_flags_kept [OF assms(2)] assms(1) by blast

lemma process_pages_not_folded:
  assumes "\<not> (swap_image_x g \<and> swap_image_y g)"
    and "process_pages g pages i = (traces, res)" "k < length traces"
    and "mediaboxlookup (page_object (pages ! k)) = Ok (True, rect)" "header_written (pages ! k)"
  shows "(\<exists>h w rs cs. CallRotate a h w rs cs \<in> set (traces ! k)) \<longleftrightarrow>
           page_rotate (pages ! k) \<noteq> 0 \<and> a = u32 (page_rotate (pages ! k))"
  using assms
proof (induction pages arbitrary: g i traces k)
  case Nil
  then show ?case by simp
next
  case (Cons page pages)
  obtain evs r where o: "outPage g page i = (evs, r)" by (cases "outPage g page i")
  show ?case
  proof (cases k)
    case 0
    with Cons.prems o have "traces ! k = fst (outPage g page i)"
      by (auto split: result.splits prod.splits)
    with outPage_not_folded [of page rect g a i] Cons.prems 0 show ?thesis by simp
  next
    case (Suc k')
    with Cons.prems o obtain g' tr where
      r: "r = Ok g'" and p: "process_pages g' pages (Suc i) = (tr, res)" and t: "traces = evs # tr"
      by (auto split: result.splits prod.splits)
    from o r Cons.prems(1) have u: "\<not> (swap_image_x g' \<and> swap_image_y g')"
      using outPage_unset_kept [of g page i g'] by simp
    from Cons.prems Suc t have "k' < length tr"
      "mediaboxlookup (page_object (pages ! k')) = Ok (True, rect)" "header_written (pages ! k')"
      by simp_all
    from Cons.IH [OF u p this] show ?thesis using Suc t by simp
  qed
qed

lemma process_pages_after_backside:
  assumes "Duplex (header g)"
    and "process_pages g pages i = (traces, res)" "j < k" "k < length traces" "odd (i + j)"
    and "mediaboxlookup (page_object (pages ! j)) = Ok (True, rect)" "header_written (pages ! j)"
    and "mediaboxlookup (page_object (pages ! k)) = Ok (True, rect')" "header_written (pages ! k)"
  shows "(\<exists>h w rs cs. CallRotate a h w rs cs \<in> set (traces ! k)) \<longleftrightarrow>
           page_rotate (pages ! k) \<noteq> 0 \<and> a = u32 (page_rotate (pages ! k))"
  using assms
proof (induction pages arbitrary: g i traces j k)
  case Nil
  then show ?case by simp
next
  case (Cons page pages)
  obtain evs r where o: "outPage g page i = (evs, r)" by (cases "outPage g page i")
  from Cons.prems(3) obtain k' where k: "k = Suc k'" by (cases k) simp_all
  with Cons.prems o obtain g' tr where
    r: "r = Ok g'" and p: "process_pages g' pages (Suc i) = (tr, res)" and t: "traces = evs # tr"
    by (auto split: result.splits prod.splits)
  from Cons.prems k t have kk: "k' < length tr"
    "mediaboxlookup (page_object (pages ! k')) = Ok (True, rect')" "header_written (pages ! k')"
    by simp_all
  show ?case
  proof (cases j)
    case 0
    with Cons.prems o r have "\<not> (swap_image_x g' \<and> swap_image_y g')"
      using outPage_backside_clears [of page rect g i g'] by simp
    from process_pages_not_folded [OF this p kk] show ?thesis using k t by simp
  next
    case (Suc j')
    from o r Cons.prems(1) have d: "Duplex (header g')"
      using outPage_Duplex [of g page i g'] by simp
    from Cons.prems Suc k have "j' < k'" "odd (Suc i + j')"
      "mediaboxlookup (page_object (pages ! j')) = Ok (True, rect)" "header_written (pages ! j')"
      by simp_all
    from Cons.IH [OF d p this(1) kk(1) this(2-4) kk(2,3)] show ?thesis using k t by simp
  qed
qed

text \<open>
  Claim C2. The fold is lost after the first backside page of a job: it clears the
  file-level image flags, and nothing sets them again. In a duplex job, whatever the flags
  at its start, every page \<open>k\<close> after a backside page \<open>j\<close> (odd page index) that got its header
  is given to \<open>rotatebitmap\<close> with its own \<open>/Rotate\<close>, and is not given to it when that is 0:
  180 degrees are not added, also when \<open>k\<close> is a backside page of a job whose PPD asks for
  both image swaps. The comment before the fold, "If page is to be swapped in both x and y,
  rotate it by 180 degress", asks for the fold on every such page.
\<close>

theorem process_pages_fold_lost:
  "Duplex (header g) \<and> process_pages g pages i = (traces, res) \<and> j < k \<and> k < length traces \<and>
   odd (i + j) \<and>
   mediaboxlookup (page_object (pages ! j)) = Ok (True, rect) \<and> header_written (pages ! j) \<and>
   mediaboxlookup (page_object (pages ! k)) = Ok (True, rect') \<and> header_written (pages ! k) \<longrightarrow>
     ((\<exists>h w rs cs. CallRotate a h w rs cs \<in> set (traces ! k)) \<longleftrightarrow>
        page_rotate (pages ! k) \<noteq> 0 \<and> a = u32 (page_rotate (pages ! k)))"
  using process_pages_after_backside [of g pages i traces res j k rect rect' a] by blast

theorem process_pages_fold_lost_witness:
  "main_globals demo_header (Some demo_ppd) 0 = Ok demo_globals \<and>
   swap_image_x demo_globals \<and> swap_image_y demo_globals \<and> odd (3::nat) \<and>
   (\<exists>h w rs cs. CallRotate 180 h w rs cs \<in>
      set (fst (process_pages demo_globals
                  (replicate 4 (demo_page letter 0 3 2 ''/DeviceGray'' [1, 2, 3, 4, 5, 6])) 0) ! 1)) \<and>
   \<not> (\<exists>h w rs cs. CallRotate 180 h w rs cs \<in>
      set (fst (process_pages demo_globals
                  (replicate 4 (demo_page letter 0 3 2 ''/DeviceGray'' [1, 2, 3, 4, 5, 6])) 0) ! 3))"
proof -
  let ?P = "demo_page letter 0 3 2 ''/DeviceGray'' [1, 2, 3, 4, 5, 6]"
  let ?J = "process_pages demo_globals (replicate 4 ?P) 0"
  have g: "main_globals demo_header (Some demo_ppd) 0 = Ok demo_globals"
    by code_simp
  have f: "swap_image_x demo_globals" "swap_image_y demo_globals" "Duplex (header demo_globals)"
    by (simp_all add: demo_defs)
  have p: "?J = (fst ?J, snd ?J)" by simp
  have k: "3 < length (fst ?J)" by code_simp
  have c: "CallRotate 180 2 3 3 ''/DeviceGray'' \<in> set (fst ?J ! 1)" by code_simp
  have m: "mediaboxlookup (page_object (replicate 4 ?P ! n)) = Ok (True, [0, 0, 612, 792])"
    "header_written (replicate 4 ?P ! n)" if "n < 4" for n
    using that by (simp_all add: demo_defs mediaboxlookup_def hasKey_def)
  have r: "page_rotate (replicate 4 ?P ! 3) = 0"
    by (simp add: demo_defs page_rotate_def getIntValueAsInt_def)
  from process_pages_fold_lost [of demo_globals "replicate 4 ?P" 0 "fst ?J" "snd ?J" 1 3
         "[0, 0, 612, 792]" "[0, 0, 612, 792]" 180] f(3) p k m [of 1] m [of 3] r
  have "\<not> (\<exists>h w rs cs. CallRotate 180 h w rs cs \<in> set (fst ?J ! 3))"
    by simp
  moreover have "odd (3::nat)" by simp
  ultimately show ?thesis using g f c by blast
qed


subsection \<open>The row size that rotatebitmap gets\<close>










subsection \<open>The loops of rotatebitmap\<close>

text \<open>
  What the loops leave in \<open>dst\<close> when every access is inside the buffers: the copied
  components, and the rest of \<open>dst\<close> as it was.
\<close>

lemma copy_comps_Some:
  assumes "0 \<le> bp + int j" "bp + int j + int n \<le> int (length src)" "dp + j + n \<le> length dst"
  shows "\<exists>dst'. copy_comps n j src bp dst dp = Some dst' \<and> length dst' = length dst \<and>
           (\<forall>i<n. dst' ! (dp + j + i) = src ! nat (bp + int j + int i)) \<and>
           (\<forall>i. i < dp + j \<or> dp + j + n \<le> i \<longrightarrow> dst' ! i = dst ! i)"
  using assms
proof (induction n arbitrary: j dst)
  case 0
  then show ?case by simp
next
  case (Suc n)
  let ?d1 = "dst[dp + j := src ! nat (bp + int j)]"
  from Suc.prems have ok: "0 \<le> bp + int j" "bp + int j < int (length src)" "dp + j < length dst"
    by simp_all
  from Suc.prems have "0 \<le> bp + int (Suc j)" "bp + int (Suc j) + int n \<le> int (length src)"
    "dp + Suc j + n \<le> length ?d1" by simp_all
  from Suc.IH [OF this] obtain dst' where
    r: "copy_comps n (Suc j) src bp ?d1 dp = Some dst'" "length dst' = length ?d1"
       "\<forall>i<n. dst' ! (dp + Suc j + i) = src ! nat (bp + int (Suc j) + int i)"
       "\<forall>i. i < dp + Suc j \<or> dp + Suc j + n \<le> i \<longrightarrow> dst' ! i = ?d1 ! i"
    by blast
  have 1: "copy_comps (Suc n) j src bp dst dp = Some dst'" using ok r(1) by simp
  have 2: "length dst' = length dst" using r(2) by simp
  have 3: "dst' ! (dp + j + i) = src ! nat (bp + int j + int i)" if "i < Suc n" for i
  proof (cases i)
    case 0
    from r(4) have "dst' ! (dp + j) = ?d1 ! (dp + j)" by simp
    with ok 0 show ?thesis by simp
  next
    case (Suc i')
    with that r(3) have "dst' ! (dp + Suc j + i') = src ! nat (bp + int (Suc j) + int i')" by simp
    with Suc show ?thesis by (simp add: add.commute add.left_commute)
  qed
  have 4: "dst' ! i = dst ! i" if "i < dp + j \<or> dp + j + Suc n \<le> i" for i
  proof -
    from that r(4) have "dst' ! i = ?d1 ! i" by auto
    with that show ?thesis by auto
  qed
  from 1 2 3 4 show ?case by blast
qed

lemma pixel_loop_Some:
  assumes "\<And>k. k < n \<Longrightarrow> 0 \<le> bp + int k * step \<and> bp + int k * step + int c \<le> int (length src)"
    and "dp + n * c \<le> length dst"
  shows "\<exists>dst'. pixel_loop n c step src (bp, dst, dp) = Some (bp + int n * step, dst', dp + n * c) \<and>
           length dst' = length dst \<and>
           (\<forall>k<n. \<forall>j<c. dst' ! (dp + k * c + j) = src ! nat (bp + int k * step + int j)) \<and>
           (\<forall>i. i < dp \<or> dp + n * c \<le> i \<longrightarrow> dst' ! i = dst ! i)"
  using assms
proof (induction n arbitrary: bp dst dp)
  case 0
  then show ?case by simp
next
  case (Suc n)
  from Suc.prems(1) [of 0] have b0: "0 \<le> bp + int 0" "bp + int 0 + int c \<le> int (length src)"
    by simp_all
  from Suc.prems(2) have d0: "dp + 0 + c \<le> length dst" by simp
  from copy_comps_Some [OF b0 d0] obtain dst1 where
    c1: "copy_comps c 0 src bp dst dp = Some dst1" "length dst1 = length dst"
        "\<forall>i<c. dst1 ! (dp + i) = src ! nat (bp + int i)"
        "\<forall>i. i < dp \<or> dp + c \<le> i \<longrightarrow> dst1 ! i = dst ! i"
    by auto
  have p: "0 \<le> (bp + step) + int k * step \<and> (bp + step) + int k * step + int c \<le> int (length src)"
    if "k < n" for k
    using Suc.prems(1) [of "Suc k"] that by (simp add: algebra_simps)
  have d: "(dp + c) + n * c \<le> length dst1" using Suc.prems(2) c1(2) by simp
  from Suc.IH [OF p d] obtain dst' where
    r: "pixel_loop n c step src (bp + step, dst1, dp + c)
          = Some (bp + step + int n * step, dst', dp + c + n * c)"
       "length dst' = length dst1"
       "\<forall>k<n. \<forall>j<c. dst' ! (dp + c + k * c + j) = src ! nat (bp + step + int k * step + int j)"
       "\<forall>i. i < dp + c \<or> dp + c + n * c \<le> i \<longrightarrow> dst' ! i = dst1 ! i"
    by blast
  have 1: "pixel_loop (Suc n) c step src (bp, dst, dp)
             = Some (bp + int (Suc n) * step, dst', dp + Suc n * c)"
    using c1(1) r(1) by (simp add: algebra_simps)
  have 2: "length dst' = length dst" using r(2) c1(2) by simp
  have 3: "dst' ! (dp + k * c + j) = src ! nat (bp + int k * step + int j)"
    if "k < Suc n" "j < c" for k j
  proof (cases k)
    case 0
    from r(4) that(2) have "dst' ! (dp + j) = dst1 ! (dp + j)" by simp
    with c1(3) that(2) 0 show ?thesis by simp
  next
    case (Suc k')
    with that r(3) have "dst' ! (dp + c + k' * c + j) = src ! nat (bp + step + int k' * step + int j)"
      by simp
    with Suc show ?thesis by (simp add: algebra_simps)
  qed
  have 4: "dst' ! i = dst ! i" if "i < dp \<or> dp + Suc n * c \<le> i" for i
  proof -
    from that r(4) have "dst' ! i = dst1 ! i" by auto
    with that c1(4) show ?thesis by auto
  qed
  from 1 2 3 4 show ?case by blast
qed

lemma rows_seeking_Some:
  assumes "\<And>h k. h < n \<Longrightarrow> k < width \<Longrightarrow>
             0 \<le> start (h0 + h) + int k * step \<and>
             start (h0 + h) + int k * step + int c \<le> int (length src)"
    and "dp + n * width * c \<le> length dst"
  shows "\<exists>dst'. rows_seeking n h0 start width c step src (dst, dp)
                  = Some (dst', dp + n * width * c) \<and>
           length dst' = length dst \<and>
           (\<forall>h<n. \<forall>k<width. \<forall>j<c.
              dst' ! (dp + (h * width + k) * c + j)
                = src ! nat (start (h0 + h) + int k * step + int j)) \<and>
           (\<forall>i. i < dp \<or> dp + n * width * c \<le> i \<longrightarrow> dst' ! i = dst ! i)"
  using assms
proof (induction n arbitrary: h0 dst dp)
  case 0
  then show ?case by simp
next
  case (Suc n)
  have p0: "0 \<le> start h0 + int k * step \<and> start h0 + int k * step + int c \<le> int (length src)"
    if "k < width" for k
    using Suc.prems(1) [of 0 k] that by simp
  have d0: "dp + width * c \<le> length dst" using Suc.prems(2) by (simp add: algebra_simps)
  from pixel_loop_Some [OF p0 d0] obtain dst1 where
    c1: "pixel_loop width c step src (start h0, dst, dp)
           = Some (start h0 + int width * step, dst1, dp + width * c)"
        "length dst1 = length dst"
        "\<forall>k<width. \<forall>j<c. dst1 ! (dp + k * c + j) = src ! nat (start h0 + int k * step + int j)"
        "\<forall>i. i < dp \<or> dp + width * c \<le> i \<longrightarrow> dst1 ! i = dst ! i"
    by blast
  have p: "0 \<le> start (Suc h0 + h) + int k * step \<and>
           start (Suc h0 + h) + int k * step + int c \<le> int (length src)"
    if "h < n" "k < width" for h k
    using Suc.prems(1) [of "Suc h" k] that by simp
  have d: "(dp + width * c) + n * width * c \<le> length dst1"
    using Suc.prems(2) c1(2) by (simp add: algebra_simps)
  from Suc.IH [OF p d] obtain dst' where
    r: "rows_seeking n (Suc h0) start width c step src (dst1, dp + width * c)
          = Some (dst', dp + width * c + n * width * c)"
       "length dst' = length dst1"
       "\<forall>h<n. \<forall>k<width. \<forall>j<c.
          dst' ! (dp + width * c + (h * width + k) * c + j)
            = src ! nat (start (Suc h0 + h) + int k * step + int j)"
       "\<forall>i. i < dp + width * c \<or> dp + width * c + n * width * c \<le> i \<longrightarrow> dst' ! i = dst1 ! i"
    by blast
  have 1: "rows_seeking (Suc n) h0 start width c step src (dst, dp)
             = Some (dst', dp + Suc n * width * c)"
    using c1(1) r(1) by (simp add: algebra_simps)
  have 2: "length dst' = length dst" using r(2) c1(2) by simp
  have 3: "dst' ! (dp + (h * width + k) * c + j) = src ! nat (start (h0 + h) + int k * step + int j)"
    if "h < Suc n" "k < width" "j < c" for h k j
  proof (cases h)
    case 0
    have "k * c + j < width * c"
    proof -
      have "k * c + j < k * c + c" using that(3) by simp
      also have "\<dots> = Suc k * c" by simp
      also have "\<dots> \<le> width * c" using that(2) by (intro mult_le_mono1) simp
      finally show ?thesis .
    qed
    then have "dp + k * c + j < dp + width * c" by simp
    with r(4) have "dst' ! (dp + k * c + j) = dst1 ! (dp + k * c + j)" by blast
    with c1(3) that 0 show ?thesis by simp
  next
    case (Suc h')
    with that r(3) have "dst' ! (dp + width * c + (h' * width + k) * c + j)
            = src ! nat (start (Suc h0 + h') + int k * step + int j)"
      by simp
    with Suc show ?thesis by (simp add: algebra_simps)
  qed
  have 4: "dst' ! i = dst ! i" if "i < dp \<or> dp + Suc n * width * c \<le> i" for i
  proof -
    from that have "i < dp + width * c \<or> dp + width * c + n * width * c \<le> i"
      by (auto simp: algebra_simps)
    with r(4) have "dst' ! i = dst1 ! i" by blast
    moreover from that have "i < dp \<or> dp + width * c \<le> i" by (auto simp: algebra_simps)
    ultimately show ?thesis using c1(4) by simp
  qed
  from 1 2 3 4 show ?case by blast
qed

lemma pixel_loop_add:
  "pixel_loop (m + n) c step src st =
     (case pixel_loop m c step src st of None \<Rightarrow> None | Some st' \<Rightarrow> pixel_loop n c step src st')"
proof (induction m arbitrary: st)
  case 0
  then show ?case by simp
next
  case (Suc m)
  obtain bp dst dp where st: "st = (bp, dst, dp)" by (cases st)
  show ?case unfolding st using Suc.IH by (simp split: option.splits)
qed

lemma rows_running_pixel_loop:
  "rows_running n width c step src st = pixel_loop (n * width) c step src st"
proof (induction n arbitrary: st)
  case 0
  then show ?case by simp
next
  case (Suc n)
  have "Suc n * width = width + n * width" by simp
  then show ?case using Suc.IH by (simp add: pixel_loop_add split: option.splits)
qed

lemma u32_nat: "n < 4294967296 \<Longrightarrow> u32 (int n) = n"
  by (simp add: u32_def)

lemma rotate180_closed:
  assumes "length src = height * width * c" "length dst = length src"
    and "row_size = int (width * c)" "height * width * c < 4294967296"
  shows "\<exists>out. rotate180 c src dst height width row_size = Ok out \<and> length out = length src \<and>
           (\<forall>k<height * width. \<forall>j<c.
              out ! (k * c + j) = src ! ((height * width - 1 - k) * c + j))"
proof -
  let ?N = "height * width"
  have u: "u32 (int height * row_size) = ?N * c"
    using assms(3,4) u32_nat [of "?N * c"] by (simp add: algebra_simps)
  have idx: "int (?N * c) - int c + int k * (- int c) = int ((?N - 1 - k) * c)" if "k < ?N" for k
  proof -
    from that obtain m where m: "?N = Suc (k + m)" using less_imp_Suc_add by blast
    then have "?N - 1 - k = m" by simp
    then show ?thesis unfolding m by (simp add: algebra_simps)
  qed
  have p: "0 \<le> (int (?N * c) - int c) + int k * (- int c) \<and>
           (int (?N * c) - int c) + int k * (- int c) + int c \<le> int (length src)"
    if "k < ?N" for k
  proof -
    from that obtain m where m: "?N = Suc (k + m)" using less_imp_Suc_add by blast
    then have "?N - 1 - k = m" "?N - k = Suc m" by simp_all
    then have "(?N - 1 - k) * c + c = (?N - k) * c" by simp
    also have "\<dots> \<le> ?N * c" by (intro mult_le_mono1) simp
    finally have "int ((?N - 1 - k) * c) + int c \<le> int (?N * c)" by linarith
    with idx [OF that] assms(1) show ?thesis by simp
  qed
  have d: "0 + ?N * c \<le> length dst" using assms(1,2) by simp
  from pixel_loop_Some [OF p d] obtain out where
    r: "pixel_loop ?N c (- int c) src (int (?N * c) - int c, dst, 0)
          = Some (int (?N * c) - int c + int ?N * (- int c), out, 0 + ?N * c)"
       "length out = length dst"
       "\<forall>k<?N. \<forall>j<c. out ! (0 + k * c + j)
           = src ! nat (int (?N * c) - int c + int k * (- int c) + int j)"
    by blast
  have 1: "rotate180 c src dst height width row_size = Ok out"
    using r(1) by (simp add: rotate180_def u rows_running_pixel_loop)
  have 3: "out ! (k * c + j) = src ! ((?N - 1 - k) * c + j)" if "k < ?N" "j < c" for k j
  proof -
    from r(3) that have A: "out ! (k * c + j)
           = src ! nat (int (?N * c) - int c + int k * (- int c) + int j)" by simp
    have B: "int (?N * c) - int c + int k * (- int c) + int j = int ((?N - 1 - k) * c + j)"
      using idx [OF that(1)] by simp
    show ?thesis by (simp only: A B nat_int)
  qed
  from 1 r(2) assms(2) 3 show ?thesis by auto
qed

lemma rotate270_closed:
  assumes "length src = height * width * c" "length dst = length src"
    and "height * width * c < 4294967296"
  shows "\<exists>out. rotate270 c src dst height width = Ok out \<and> length out = length src \<and>
           (\<forall>h<height. \<forall>k<width. \<forall>j<c.
              out ! ((h * width + k) * c + j) = src ! ((k * height + (height - 1 - h)) * c + j))"
proof -
  let ?start = "\<lambda>h. int (u32 ((int height - int h) * int c)) - int c"
  let ?step = "int (u32 (int height * int c))"
  have le: "height * c \<le> height * width * c" if "k < width" for k
    using that by (cases width) simp_all
  have st: "?step = int (height * c)" if "k < width" for k
  proof -
    from le [OF that] assms(3) have "height * c < 4294967296" by linarith
    from u32_nat [OF this] show ?thesis by simp
  qed
  have sa: "?start h = int ((height - 1 - h) * c)" if "h < height" "k < width" for h k
  proof -
    from that(1) obtain m where m: "height = Suc (h + m)" using less_imp_Suc_add by blast
    have "(height - h) * c \<le> height * c" by (intro mult_le_mono1) simp
    with le [OF that(2)] assms(3) have "(height - h) * c < 4294967296" by linarith
    from u32_nat [OF this] that(1) have "u32 ((int height - int h) * int c) = (height - h) * c"
      by (simp add: of_nat_diff)
    then show ?thesis unfolding m by (simp add: algebra_simps)
  qed
  have idx: "?start h + int k * ?step + int j = int ((k * height + (height - 1 - h)) * c + j)"
    if "h < height" "k < width" for h k j
    using sa [OF that] st [OF that(2)] by (simp add: algebra_simps)
  have p: "0 \<le> ?start (0 + h) + int k * ?step \<and>
           ?start (0 + h) + int k * ?step + int c \<le> int (length src)"
    if "h < height" "k < width" for h k
  proof -
    from that(1) obtain m where m: "height = Suc (h + m)" using less_imp_Suc_add by blast
    then have "height - 1 - h = m" "height - h = Suc m" by simp_all
    then have "(k * height + (height - 1 - h)) * c + c = (k * height + (height - h)) * c"
      by (simp add: algebra_simps)
    also have "\<dots> \<le> (k * height + height) * c" by (intro mult_le_mono1) simp
    also have "\<dots> = Suc k * height * c" by (simp add: algebra_simps)
    also have "\<dots> \<le> width * height * c" using that(2) by (intro mult_le_mono1) simp
    finally have "(k * height + (height - 1 - h)) * c + c \<le> height * width * c"
      by (simp only: mult.commute [of width height])
    then have "int ((k * height + (height - 1 - h)) * c + c) \<le> int (height * width * c)"
      by (simp only: of_nat_le_iff)
    then have "int ((k * height + (height - 1 - h)) * c + 0) + int c \<le> int (height * width * c)"
      by (simp only: of_nat_add add_0_right)
    with idx [OF that, of 0] assms(1) show ?thesis by simp
  qed
  have d: "0 + height * width * c \<le> length dst" using assms(1,2) by simp
  from rows_seeking_Some [of height width ?start 0 ?step c src 0 dst, OF p d] obtain out where
    r: "rows_seeking height 0 ?start width c ?step src (dst, 0) = Some (out, 0 + height * width * c)"
       "length out = length dst"
       "\<forall>h<height. \<forall>k<width. \<forall>j<c.
          out ! (0 + (h * width + k) * c + j) = src ! nat (?start (0 + h) + int k * ?step + int j)"
    by blast
  have 1: "rotate270 c src dst height width = Ok out"
    using r(1) by (simp add: rotate270_def)
  have 3: "out ! ((h * width + k) * c + j) = src ! ((k * height + (height - 1 - h)) * c + j)"
    if "h < height" "k < width" "j < c" for h k j
  proof -
    from r(3) that have A: "out ! ((h * width + k) * c + j)
        = src ! nat (?start h + int k * ?step + int j)" by simp
    have B: "?start h + int k * ?step + int j = int ((k * height + (height - 1 - h)) * c + j)"
      by (rule idx [OF that(1,2)])
    show ?thesis by (simp only: A B nat_int)
  qed
  from 1 r(2) assms(2) 3 show ?thesis by auto
qed

lemma rotate90_closed:
  assumes "length src = height * width * c" "length dst = length src"
    and "height * width * c < 4294967296"
  shows "\<exists>out. rotate90 c src dst height width = Ok out \<and> length out = length src \<and>
           (\<forall>h<height. \<forall>k<width. \<forall>j<c.
              out ! ((h * width + k) * c + j) = src ! (((width - 1 - k) * height + h) * c + j))"
proof -
  let ?start = "\<lambda>h. int (u32 ((int width - 1) * int height * int c + int c * int h))"
  let ?step = "- int (u32 (int height * int c))"
  have le: "height * c \<le> height * width * c" if "k < width" for k
    using that by (cases width) simp_all
  have st: "?step = - int (height * c)" if "k < width" for k
  proof -
    from le [OF that] assms(3) have "height * c < 4294967296" by linarith
    from u32_nat [OF this] show ?thesis by simp
  qed
  have sa: "?start h = int (((width - 1) * height + h) * c)" if "h < height" "k < width" for h k
  proof -
    from that(2) obtain m where m: "width = Suc m" by (cases width) simp_all
    have "((width - 1) * height + h) * c \<le> ((width - 1) * height + height) * c"
      using that(1) by (intro mult_le_mono1) simp
    also have "\<dots> = height * width * c" unfolding m by (simp add: algebra_simps)
    finally have "((width - 1) * height + h) * c < 4294967296" using assms(3) by linarith
    from u32_nat [OF this] show ?thesis unfolding m by (simp add: algebra_simps)
  qed
  have idx: "?start h + int k * ?step + int j = int (((width - 1 - k) * height + h) * c + j)"
    if "h < height" "k < width" for h k j
  proof -
    from that(2) obtain m where m: "width = Suc (k + m)" using less_imp_Suc_add by blast
    then have w: "width - 1 = k + m" "width - 1 - k = m" by simp_all
    show ?thesis using sa [OF that] st [OF that(2)] unfolding w by (simp add: algebra_simps)
  qed
  have p: "0 \<le> ?start (0 + h) + int k * ?step \<and>
           ?start (0 + h) + int k * ?step + int c \<le> int (length src)"
    if "h < height" "k < width" for h k
  proof -
    have "((width - 1 - k) * height + h) * c + c = ((width - 1 - k) * height + Suc h) * c"
      by (simp add: algebra_simps)
    also have "\<dots> \<le> ((width - 1 - k) * height + height) * c"
      using that(1) by (intro mult_le_mono1) simp
    also have "\<dots> = (width - k) * height * c"
    proof -
      from that(2) obtain m where m: "width = Suc (k + m)" using less_imp_Suc_add by blast
      then have "width - 1 - k = m" "width - k = Suc m" by simp_all
      then show ?thesis by (simp add: algebra_simps)
    qed
    also have "\<dots> \<le> width * height * c" by (intro mult_le_mono1) simp
    finally have "((width - 1 - k) * height + h) * c + c \<le> height * width * c"
      by (simp only: mult.commute [of width height])
    then have "int (((width - 1 - k) * height + h) * c + c) \<le> int (height * width * c)"
      by (simp only: of_nat_le_iff)
    then have "int (((width - 1 - k) * height + h) * c + 0) + int c \<le> int (height * width * c)"
      by (simp only: of_nat_add add_0_right)
    with idx [OF that, of 0] assms(1) show ?thesis by simp
  qed
  have d: "0 + height * width * c \<le> length dst" using assms(1,2) by simp
  from rows_seeking_Some [of height width ?start 0 ?step c src 0 dst, OF p d] obtain out where
    r: "rows_seeking height 0 ?start width c ?step src (dst, 0) = Some (out, 0 + height * width * c)"
       "length out = length dst"
       "\<forall>h<height. \<forall>k<width. \<forall>j<c.
          out ! (0 + (h * width + k) * c + j) = src ! nat (?start (0 + h) + int k * ?step + int j)"
    by blast
  have 1: "rotate90 c src dst height width = Ok out"
    using r(1) by (simp add: rotate90_def)
  have 3: "out ! ((h * width + k) * c + j) = src ! (((width - 1 - k) * height + h) * c + j)"
    if "h < height" "k < width" "j < c" for h k j
  proof -
    from r(3) that have A: "out ! ((h * width + k) * c + j)
        = src ! nat (?start h + int k * ?step + int j)" by simp
    have B: "?start h + int k * ?step + int j = int (((width - 1 - k) * height + h) * c + j)"
      by (rule idx [OF that(1,2)])
    show ?thesis by (simp only: A B nat_int)
  qed
  from 1 r(2) assms(2) 3 show ?thesis by auto
qed

lemma pixel_index_less:
  fixes h k j height width c :: nat
  assumes "h < height" "k < width" "j < c"
  shows "(h * width + k) * c + j < height * width * c"
proof -
  have "(h * width + k) * c + j < (h * width + k) * c + c" using assms(3) by simp
  also have "\<dots> = Suc (h * width + k) * c" by simp
  also have "\<dots> \<le> (h * width + width) * c" using assms(2) by (intro mult_le_mono1) simp
  also have "\<dots> = Suc h * width * c" by (simp add: algebra_simps)
  also have "\<dots> \<le> height * width * c" using assms(1) by (intro mult_le_mono1) simp
  finally show ?thesis .
qed

lemma pixels_eqI:
  assumes "length a = height * width * c" "length b = height * width * c"
    and "\<And>h k j. h < height \<Longrightarrow> k < width \<Longrightarrow> j < c \<Longrightarrow>
           a ! ((h * width + k) * c + j) = b ! ((h * width + k) * c + j)"
  shows "a = b"
proof (rule nth_equalityI)
  show "length a = length b" using assms(1,2) by simp
next
  fix i assume "i < length a"
  with assms(1) have i: "i < height * width * c" by simp
  then have c: "0 < c" and w: "0 < width" by (auto intro: gr0I)
  let ?p = "i div c"
  have p: "?p < height * width" using i by (simp add: less_mult_imp_div_less)
  have h: "?p div width < height"
    using p by (simp add: less_mult_imp_div_less)
  have k: "?p mod width < width" using w by simp
  have j: "i mod c < c" using c by simp
  have "i = ((?p div width) * width + ?p mod width) * c + i mod c" by simp
  with assms(3) [OF h k j] show "a ! i = b ! i" by simp
qed

lemma mirror_index:
  fixes h k height width :: nat
  assumes "h < height" "k < width"
  shows "height * width - 1 - (h * width + k) = (height - 1 - h) * width + (width - 1 - k)"
proof -
  from assms obtain m n where m: "height = Suc (h + m)" and n: "width = Suc (k + n)"
    using less_imp_Suc_add by blast
  have "height - 1 - h = m" "width - 1 - k = n" using m n by simp_all
  moreover have "height * width - 1 - (h * width + k) = m * width + n"
    unfolding m using n by (simp add: algebra_simps)
  ultimately show ?thesis by simp
qed

lemma components_cases:
  assumes "(colorspace, c) \<in> {(''/DeviceGray'', 1), (''/DeviceCMYK'', 4), (''/DeviceRGB'', 3 :: nat)}"
  shows "rotatebitmap src dst 180 height width rs colorspace = rotate180 c src dst height width rs"
    and "rotatebitmap src dst 270 height width rs colorspace = rotate270 c src dst height width"
    and "rotatebitmap src dst 90 height width rs colorspace = rotate90 c src dst height width"
  using assms by (auto simp: rotatebitmap_def)


subsection \<open>Rotation by 180 degrees\<close>

text \<open>
  Claim C4. Let \<open>src\<close> hold \<open>height\<close> rows of \<open>width\<close> pixels of \<open>c\<close> components (1 for Gray,
  4 for CMYK, 3 for RGB), in fewer than \<open>2^32\<close> bytes (the buffers of \<open>outPage\<close> have a size of
  type \<open>int\<close>), let \<open>dst\<close> be as long, and let the row size be \<open>width * c\<close>. Then
  \<open>rotatebitmap\<close> with angle 180 returns, and in its result pixel \<open>w\<close> of row \<open>h\<close> is pixel
  \<open>width - 1 - w\<close> of row \<open>height - 1 - h\<close> of \<open>src\<close>, component by component in the same
  order; for Gray the result is the source reversed byte by byte.
\<close>

theorem rotatebitmap_180:
  assumes "(colorspace, c) \<in> {(''/DeviceGray'', 1), (''/DeviceCMYK'', 4), (''/DeviceRGB'', 3)}"
    and "length src = height * width * c" and "length dst = length src"
    and "height * width * c < 4294967296"
  shows "\<exists>out. rotatebitmap src dst 180 height width (int (width * c)) colorspace = Ok out \<and>
           length out = length src \<and>
           (\<forall>h<height. \<forall>w<width. \<forall>j<c.
              out ! ((h * width + w) * c + j)
                = src ! (((height - 1 - h) * width + (width - 1 - w)) * c + j)) \<and>
           (c = 1 \<longrightarrow> out = rev src)"
proof -
  from rotate180_closed [OF assms(2,3) refl assms(4)] obtain out where
    r: "rotate180 c src dst height width (int (width * c)) = Ok out" "length out = length src"
       "\<forall>k<height * width. \<forall>j<c. out ! (k * c + j) = src ! ((height * width - 1 - k) * c + j)"
    by blast
  have 1: "rotatebitmap src dst 180 height width (int (width * c)) colorspace = Ok out"
    using components_cases(1) [OF assms(1)] r(1) by simp
  have 3: "out ! ((h * width + w) * c + j)
             = src ! (((height - 1 - h) * width + (width - 1 - w)) * c + j)"
    if "h < height" "w < width" "j < c" for h w j
  proof -
    from pixel_index_less [OF that(1,2), of 0 1] have "h * width + w < height * width" by simp
    with r(3) that(3) have "out ! ((h * width + w) * c + j)
        = src ! ((height * width - 1 - (h * width + w)) * c + j)" by blast
    then show ?thesis by (simp only: mirror_index [OF that(1,2)])
  qed
  have 4: "out = rev src" if "c = 1"
  proof (rule nth_equalityI)
    show "length out = length (rev src)" using r(2) by simp
  next
    fix i assume "i < length out"
    with r(2) assms(2) that have i: "i < height * width" "i < length src" by simp_all
    with r(3) that have "out ! i = src ! (height * width - 1 - i)" by simp
    with i assms(2) that show "out ! i = rev src ! i" by (simp add: rev_nth)
  qed
  from 1 r(2) 3 4 show ?thesis by blast
qed


theorem rotatebitmap_180_witness:
  "\<exists>out. rotatebitmap [1, 2, 3, 4, 5, 6] [0, 0, 0, 0, 0, 0] 180 2 1 3 ''/DeviceRGB'' = Ok out \<and>
         out ! 0 = 4 \<and> out ! 1 = 5 \<and> out ! 2 = 6 \<and> out ! 3 = 1 \<and> out ! 4 = 2 \<and> out ! 5 = 3"
proof -
  from rotatebitmap_180 [of "''/DeviceRGB''" 3 "[1, 2, 3, 4, 5, 6]" 2 1 "[0, 0, 0, 0, 0, 0]"]
  obtain out where
    o: "rotatebitmap [1, 2, 3, 4, 5, 6] [0, 0, 0, 0, 0, 0] 180 2 1 3 ''/DeviceRGB'' = Ok out"
    and p: "\<forall>h<2. \<forall>w<1. \<forall>j<3.
              out ! ((h * 1 + w) * 3 + j)
                = [1, 2, 3, 4, 5, 6 :: byte] ! (((2 - 1 - h) * 1 + (1 - 1 - w)) * 3 + j)"
    by auto
  have "out ! ((h * 1 + 0) * 3 + j) = [1, 2, 3, 4, 5, 6 :: byte] ! (((2 - 1 - h) * 1 + (1 - 1 - 0)) * 3 + j)"
    if "h < 2" "j < 3" for h j
    using p that by blast
  from this [of 0 0] this [of 0 1] this [of 0 2] this [of 1 0] this [of 1 1] this [of 1 2] o
  show ?thesis by (simp add: numeral_2_eq_2)
qed


subsection \<open>Rotations that undo each other\<close>

text \<open>
  Claim C3. Let \<open>x\<close> hold \<open>height\<close> rows of \<open>width\<close> pixels of \<open>c\<close> components, in fewer than
  \<open>2^32\<close> bytes, and let the destination buffers \<open>d1\<close> and \<open>d2\<close> be as long as \<open>x\<close>. Angle 0
  returns \<open>x\<close> itself. Each call gets the height and the width of its result, as \<open>outPage\<close>
  passes them (it swaps the two for 90 and 270 degrees before the call): rotating \<open>x\<close> by 90
  degrees into \<open>width\<close> rows of \<open>height\<close> pixels and the result by 270 degrees into \<open>height\<close>
  rows of \<open>width\<close> pixels gives \<open>x\<close>; rotating twice by 180 degrees with the row size
  \<open>width * c\<close> gives \<open>x\<close>. The branches for 90 and 270 degrees do not read the row size.
\<close>

theorem rotatebitmap_inverse:
  assumes "(colorspace, c) \<in> {(''/DeviceGray'', 1), (''/DeviceCMYK'', 4), (''/DeviceRGB'', 3)}"
    and "length x = height * width * c" and "length d1 = length x" and "length d2 = length x"
    and "height * width * c < 4294967296"
  shows "rotatebitmap x d1 0 height width rs colorspace = Ok x \<and>
         (\<exists>y. rotatebitmap x d1 90 width height rs colorspace = Ok y \<and>
               rotatebitmap y d2 270 height width rs' colorspace = Ok x) \<and>
         (\<exists>y. rotatebitmap x d1 180 height width (int (width * c)) colorspace = Ok y \<and>
               rotatebitmap y d2 180 height width (int (width * c)) colorspace = Ok x)"
proof (intro conjI)
  show "rotatebitmap x d1 0 height width rs colorspace = Ok x"
    by (simp add: rotatebitmap_def)
next
  have l: "length x = width * height * c" "width * height * c < 4294967296"
    using assms(2,5) by (simp_all add: mult.commute)
  from rotate90_closed [OF l(1) assms(3) l(2)] obtain y where
    y: "rotate90 c x d1 width height = Ok y" "length y = length x"
       "\<forall>h<width. \<forall>k<height. \<forall>j<c.
          y ! ((h * height + k) * c + j) = x ! (((height - 1 - k) * width + h) * c + j)"
    by blast
  have ly: "length y = height * width * c" "length d2 = length y" using y(2) assms(2,4) by simp_all
  from rotate270_closed [OF ly assms(5)] obtain z where
    z: "rotate270 c y d2 height width = Ok z" "length z = length y"
       "\<forall>h<height. \<forall>k<width. \<forall>j<c.
          z ! ((h * width + k) * c + j) = y ! ((k * height + (height - 1 - h)) * c + j)"
    by blast
  have "z = x"
  proof (rule pixels_eqI [of _ height width c])
    show "length z = height * width * c" using z(2) ly by simp
    show "length x = height * width * c" by (rule assms(2))
  next
    fix h k j assume b: "h < height" "k < width" "j < c"
    then have h': "height - 1 - h < height" by simp
    from b have e: "height - 1 - (height - 1 - h) = h" by simp
    from z(3) b have "z ! ((h * width + k) * c + j) = y ! ((k * height + (height - 1 - h)) * c + j)"
      by blast
    also from y(3) b(2,3) h' have "\<dots> = x ! (((height - 1 - (height - 1 - h)) * width + k) * c + j)"
      by blast
    finally show "z ! ((h * width + k) * c + j) = x ! ((h * width + k) * c + j)"
      by (simp only: e)
  qed
  with y(1) z(1) components_cases(2,3) [OF assms(1)]
  show "\<exists>y. rotatebitmap x d1 90 width height rs colorspace = Ok y \<and>
            rotatebitmap y d2 270 height width rs' colorspace = Ok x"
    by auto
next
  from rotate180_closed [OF assms(2,3) refl assms(5)] obtain y where
    y: "rotate180 c x d1 height width (int (width * c)) = Ok y" "length y = length x"
       "\<forall>k<height * width. \<forall>j<c. y ! (k * c + j) = x ! ((height * width - 1 - k) * c + j)"
    by blast
  have ly: "length y = height * width * c" "length d2 = length y" using y(2) assms(2,4) by simp_all
  from rotate180_closed [OF ly refl assms(5)] obtain z where
    z: "rotate180 c y d2 height width (int (width * c)) = Ok z" "length z = length y"
       "\<forall>k<height * width. \<forall>j<c. z ! (k * c + j) = y ! ((height * width - 1 - k) * c + j)"
    by blast
  have "z = x"
  proof (rule pixels_eqI [of _ height width c])
    show "length z = height * width * c" using z(2) ly by simp
    show "length x = height * width * c" by (rule assms(2))
  next
    fix h k j assume b: "h < height" "k < width" "j < c"
    let ?k = "h * width + k"
    from pixel_index_less [OF b(1,2), of 0 1] have k: "?k < height * width" by simp
    then have k': "height * width - 1 - ?k < height * width" by simp
    from k have e: "height * width - 1 - (height * width - 1 - ?k) = ?k" by simp
    from z(3) k b(3) have "z ! (?k * c + j) = y ! ((height * width - 1 - ?k) * c + j)" by blast
    also from y(3) k' b(3) have "\<dots> = x ! ((height * width - 1 - (height * width - 1 - ?k)) * c + j)"
      by blast
    finally show "z ! (?k * c + j) = x ! (?k * c + j)" by (simp only: e)
  qed
  with y(1) z(1) components_cases(1) [OF assms(1)]
  show "\<exists>y. rotatebitmap x d1 180 height width (int (width * c)) colorspace = Ok y \<and>
            rotatebitmap y d2 180 height width (int (width * c)) colorspace = Ok x"
    by auto
qed

theorem rotatebitmap_inverse_witness:
  "\<exists>y. rotatebitmap [1, 2, 3, 4, 5, 6] [0, 0, 0, 0, 0, 0] 90 3 2 0 ''/DeviceGray'' = Ok y \<and>
       rotatebitmap y [9, 9, 9, 9, 9, 9] 270 2 3 0 ''/DeviceGray'' = Ok [1, 2, 3, 4, 5, 6]"
  using rotatebitmap_inverse [of "''/DeviceGray''" 1 "[1, 2, 3, 4, 5, 6]" 2 3 "[0, 0, 0, 0, 0, 0]"
      "[9, 9, 9, 9, 9, 9]" 0 0]
  by simp

text \<open>
  A bitmap of two rows of three gray pixels, rotated; and an RGB column of two pixels turned
  by 180 degrees, where the three bytes of a pixel stay in order.
\<close>

lemma rotatebitmap_examples:
  "rotatebitmap [1, 2, 3, 4, 5, 6] [0, 0, 0, 0, 0, 0] 180 2 3 3 ''/DeviceGray'' = Ok [6, 5, 4, 3, 2, 1]"
  "rotatebitmap [1, 2, 3, 4, 5, 6] [0, 0, 0, 0, 0, 0] 90 3 2 3 ''/DeviceGray'' = Ok [4, 1, 5, 2, 6, 3]"
  "rotatebitmap [4, 1, 5, 2, 6, 3] [0, 0, 0, 0, 0, 0] 270 2 3 2 ''/DeviceGray'' = Ok [1, 2, 3, 4, 5, 6]"
  "rotatebitmap [1, 2, 3, 4, 5, 6] [0, 0, 0, 0, 0, 0] 270 3 2 3 ''/DeviceGray'' = Ok [3, 6, 2, 5, 1, 4]"
  "rotatebitmap [1, 2, 3, 4, 5, 6] [0, 0, 0, 0, 0, 0] 180 2 1 3 ''/DeviceRGB'' = Ok [4, 5, 6, 1, 2, 3]"
  by code_simp+

text \<open>
  The second call needs the size of its own result: with the same height and width in both
  calls a row of two pixels does not come back.
\<close>

lemma rotatebitmap_same_size:
  "rotatebitmap [1, 2] [0, 0] 90 1 2 2 ''/DeviceGray'' = Ok [2, 1]"
  "rotatebitmap [2, 1] [0, 0] 270 1 2 2 ''/DeviceGray'' = Ok [2, 1]"
  by code_simp+

subsection \<open>convertReverseLine\<close>

lemma reverse_pixels_read:
  assumes w: "writes_pixels lib g plane pixels len readpixel val"
    and "length dst = len" "i0 + n \<le> pixels"
    and "\<And>i. i0 \<le> i \<Longrightarrow> i < i0 + n \<Longrightarrow> u32 ((int pixels - int i - 1) * numcolors g) \<le> length src"
  shows "\<exists>out. reverse_pixels n i0 lib g f src row plane pixels dst = Ok out \<and> length out = len \<and>
           (\<forall>i. i0 \<le> i \<and> i < i0 + n \<longrightarrow>
              readpixel out i
                = val (reversed_pixel lib g f src row (u32 ((int pixels - int i - 1) * numcolors g)) i)) \<and>
           (\<forall>i. i < i0 \<or> i0 + n \<le> i \<longrightarrow> readpixel out i = readpixel dst i)"
  using assms(2-)
proof (induction n arbitrary: i0 dst)
  case 0
  then show ?case by auto
next
  case (Suc n)
  let ?off = "u32 ((int pixels - int i0 - 1) * numcolors g)"
  let ?pb = "reversed_pixel lib g f src row ?off i0"
  let ?d1 = "writepixel lib dst plane i0 ?pb (cupsNumColors (header g))
               (cupsBitsPerColor (header g)) (cupsColorOrder (header g))"
  from Suc.prems(2) have i0: "i0 < pixels" by simp
  from w i0 Suc.prems(1) have l1: "length ?d1 = len" and r1: "readpixel ?d1 i0 = val ?pb"
    and f1: "\<And>i'. i' \<noteq> i0 \<Longrightarrow> readpixel ?d1 i' = readpixel dst i'"
    unfolding writes_pixels_def by blast+
  have off: "?off \<le> length src" using Suc.prems(3) [of i0] by simp
  have b: "Suc i0 + n \<le> pixels" using Suc.prems(2) by simp
  have s: "u32 ((int pixels - int i - 1) * numcolors g) \<le> length src"
    if "Suc i0 \<le> i" "i < Suc i0 + n" for i
    using Suc.prems(3) [of i] that by simp
  from Suc.IH [OF l1 b s] obtain out where
    r: "reverse_pixels n (Suc i0) lib g f src row plane pixels ?d1 = Ok out" "length out = len"
       "\<forall>i. Suc i0 \<le> i \<and> i < Suc i0 + n \<longrightarrow>
          readpixel out i
            = val (reversed_pixel lib g f src row (u32 ((int pixels - int i - 1) * numcolors g)) i)"
       "\<forall>i. i < Suc i0 \<or> Suc i0 + n \<le> i \<longrightarrow> readpixel out i = readpixel ?d1 i"
    by blast
  have 1: "reverse_pixels (Suc n) i0 lib g f src row plane pixels dst = Ok out"
    using off r(1) by (simp add: Let_def reversed_pixel_def)
  have 3: "readpixel out i
            = val (reversed_pixel lib g f src row (u32 ((int pixels - int i - 1) * numcolors g)) i)"
    if "i0 \<le> i \<and> i < i0 + Suc n" for i
  proof (cases "i = i0")
    case True
    with r(4) have "readpixel out i = readpixel ?d1 i0" by simp
    with r1 True show ?thesis by simp
  next
    case False
    with that r(3) show ?thesis by simp
  qed
  have 4: "readpixel out i = readpixel dst i" if "i < i0 \<or> i0 + Suc n \<le> i" for i
  proof -
    from that r(4) have "readpixel out i = readpixel ?d1 i" by auto
    moreover from that have "i \<noteq> i0" by auto
    ultimately show ?thesis using f1 by simp
  qed
  from 1 r(2) 3 4 show ?case by blast
qed

lemma convertReverseLine_chunked:
  assumes f: "convertcspace g = Some f"
    and h: "cupsBitsPerColor (header g) = 8" "cupsColorOrder (header g) = CUPS_ORDER_CHUNKED"
    and p: "pixels = cupsWidth (header g)"
    and l: "pixels * cupsNumColors (header g)
              \<le> length (call_cspace (cspace_lib lib) f src buf row pixels)"
           "pixels * cupsNumColors (header g) \<le> length dst"
           "pixels * cupsNumColors (header g) < 4294967296"
  shows "\<exists>out. convertReverseLine lib g src dst buf row plane pixels = Ok out \<and>
           length out = length dst \<and>
           (\<forall>i<pixels. \<forall>j<cupsNumColors (header g).
              out ! (i * cupsNumColors (header g) + j)
                = call_cspace (cspace_lib lib) f src buf row pixels
                    ! ((pixels - 1 - i) * cupsNumColors (header g) + j))"
proof -
  let ?nc = "cupsNumColors (header g)"
  let ?conv = "call_cspace (cspace_lib lib) f src buf row pixels"
  let ?bp = "int (u32 ((int pixels - 1) * int ?nc))"
  have bp: "?bp = int ((pixels - 1) * ?nc)" if "k < pixels" for k
  proof -
    from that obtain m where m: "pixels = Suc m" by (cases pixels) simp_all
    have "(pixels - 1) * ?nc \<le> pixels * ?nc" by (intro mult_le_mono1) simp
    with l(3) have "(pixels - 1) * ?nc < 4294967296" by linarith
    from u32_nat [OF this] show ?thesis unfolding m by simp
  qed
  have idx: "?bp + int k * (- int ?nc) = int ((pixels - 1 - k) * ?nc)" if "k < pixels" for k
  proof -
    from that obtain m where m: "pixels = Suc (k + m)" using less_imp_Suc_add by blast
    then have e: "pixels - 1 = k + m" "pixels - 1 - k = m" by simp_all
    from bp [OF that] have "?bp = int ((k + m) * ?nc)" by (simp only: e)
    then show ?thesis by (simp only: e) (simp add: algebra_simps)
  qed
  have pre: "0 \<le> ?bp + int k * (- int ?nc) \<and> ?bp + int k * (- int ?nc) + int ?nc \<le> int (length ?conv)"
    if "k < pixels" for k
  proof -
    from that obtain m where m: "pixels = Suc (k + m)" using less_imp_Suc_add by blast
    then have "pixels - 1 - k = m" "pixels - k = Suc m" by simp_all
    then have "(pixels - 1 - k) * ?nc + ?nc = (pixels - k) * ?nc" by simp
    also have "\<dots> \<le> pixels * ?nc" by (intro mult_le_mono1) simp
    finally have "(pixels - 1 - k) * ?nc + ?nc \<le> length ?conv" using l(1) by linarith
    then have "int ((pixels - 1 - k) * ?nc) + int ?nc \<le> int (length ?conv)"
      by (simp only: of_nat_add [symmetric] of_nat_le_iff)
    with idx [OF that] show ?thesis by simp
  qed
  have d: "0 + pixels * ?nc \<le> length dst" using l(2) by simp
  from pixel_loop_Some [OF pre d] obtain out where
    r: "pixel_loop pixels ?nc (- int ?nc) ?conv (?bp, dst, 0)
          = Some (?bp + int pixels * (- int ?nc), out, 0 + pixels * ?nc)"
       "length out = length dst"
       "\<forall>k<pixels. \<forall>j<?nc. out ! (0 + k * ?nc + j)
           = ?conv ! nat (?bp + int k * (- int ?nc) + int j)"
    by blast
  have 1: "convertReverseLine lib g src dst buf row plane pixels = Ok out"
    using r(1) f h p by (simp add: convertReverseLine_def)
  have 3: "out ! (i * ?nc + j) = ?conv ! ((pixels - 1 - i) * ?nc + j)"
    if "i < pixels" "j < ?nc" for i j
  proof -
    from r(3) that have A: "out ! (i * ?nc + j) = ?conv ! nat (?bp + int i * (- int ?nc) + int j)"
      by simp
    have B: "?bp + int i * (- int ?nc) + int j = int ((pixels - 1 - i) * ?nc + j)"
      using idx [OF that(1)] by simp
    show ?thesis by (simp only: A B nat_int)
  qed
  from 1 r(2) 3 show ?thesis by blast
qed

lemma convertReverseLine_general:
  assumes f: "convertcspace g = Some f"
    and h: "\<not> (cupsBitsPerColor (header g) = 1 \<and> cupsNumColors (header g) = 1)"
           "\<not> (cupsBitsPerColor (header g) = 8 \<and> cupsColorOrder (header g) = CUPS_ORDER_CHUNKED)"
    and n: "numcolors g = int ncs" "pixels * ncs \<le> length src" "pixels * ncs < 4294967296"
    and w: "writes_pixels lib g plane pixels (length dst) readpixel val"
  shows "\<exists>out. convertReverseLine lib g src dst buf row plane pixels = Ok out \<and>
           (\<forall>i<pixels. readpixel out i
                          = val (reversed_pixel lib g f src row ((pixels - 1 - i) * ncs) i))"
proof -
  have off: "u32 ((int pixels - int i - 1) * numcolors g) = (pixels - 1 - i) * ncs"
    if "i < pixels" for i
  proof -
    from that obtain m where m: "pixels = Suc (i + m)" using less_imp_Suc_add by blast
    then have e: "pixels - 1 - i = m" by simp
    have "(pixels - 1 - i) * ncs \<le> pixels * ncs" by (intro mult_le_mono1) simp
    with n(3) have "(pixels - 1 - i) * ncs < 4294967296" by linarith
    from u32_nat [OF this] show ?thesis unfolding n(1) e unfolding m by (simp add: algebra_simps)
  qed
  have b: "u32 ((int pixels - int i - 1) * numcolors g) \<le> length src"
    if "0 \<le> i" "i < 0 + pixels" for i
  proof -
    from that have i: "i < pixels" by simp
    have "(pixels - 1 - i) * ncs \<le> pixels * ncs" by (intro mult_le_mono1) simp
    with n(2) have "(pixels - 1 - i) * ncs \<le> length src" by linarith
    then show ?thesis by (simp only: off [OF i])
  qed
  from reverse_pixels_read [where n = pixels and ?i0.0 = 0 and f = f and row = row, OF w refl _ b]
  obtain out where
    r: "reverse_pixels pixels 0 lib g f src row plane pixels dst = Ok out"
       "\<forall>i. 0 \<le> i \<and> i < 0 + pixels \<longrightarrow>
          readpixel out i
            = val (reversed_pixel lib g f src row (u32 ((int pixels - int i - 1) * numcolors g)) i)"
    by auto
  have 1: "convertReverseLine lib g src dst buf row plane pixels = Ok out"
    using r(1) f h by (auto simp: convertReverseLine_def)
  have 2: "readpixel out i = val (reversed_pixel lib g f src row ((pixels - 1 - i) * ncs) i)"
    if "i < pixels" for i
    using r(2) that off [OF that] by simp
  from 1 2 show ?thesis by blast
qed

lemma convertReverseLine_one_bit:
  assumes f: "convertcspace g = Some f"
    and h: "cupsBitsPerColor (header g) = 1" "cupsNumColors (header g) = 1"
  shows "convertReverseLine lib g src dst buf row plane pixels =
           Ok (reverseOneBitLine lib (call_cspace (cspace_lib lib) f src buf row pixels) dst
                 pixels (bytesPerLine g))"
  using assms by (simp add: convertReverseLine_def)

lemma selectConvertFunc_convertline:
  assumes "selectConvertFunc cs pgno g = Ok g'"
  shows "convertline g' = Some LINE_convertReverseLine
           \<longleftrightarrow> Duplex (header g) \<and> odd pgno \<and> swap_image_x g"
    and "convertline g' = Some LINE_convertLine
           \<longleftrightarrow> \<not> (Duplex (header g) \<and> odd pgno \<and> swap_image_x g)"
  using selectConvertFunc_keeps(7) [OF assms] by auto

text \<open>
  Claim C7. (1) \<open>selectConvertFunc\<close> selects \<open>convertReverseLine\<close> exactly for a duplex
  backside page whose \<open>swap_image_x\<close> is set at that moment, and \<open>convertLine\<close> otherwise.
  (2) On the path for one bit and one color the row is what \<open>reverseOneBitLine\<close> makes of the
  converted row; with a helper that mirrors, pixel \<open>i\<close> of the result is pixel
  \<open>pixels - 1 - i\<close> of the converted row. (3) On the path for 8 bits, chunked, called with the
  width of the page as \<open>outPage\<close> does, with the converted row and \<open>dst\<close> long enough, pixel \<open>i\<close>
  of the result is pixel \<open>pixels - 1 - i\<close> of the converted row, component by component. (4) On
  the general path, with a source row of \<open>pixels\<close> pixels of \<open>numcolors\<close> bytes and a
  \<open>writepixel\<close> that writes one pixel and keeps the others, pixel \<open>i\<close> of the result is the
  source pixel \<open>pixels - 1 - i\<close> after \<open>convertcspace\<close> and \<open>convertbits\<close>. The row sizes are
  below \<open>2^32\<close> bytes.
\<close>

theorem convertReverseLine_mirror:
  "(selectConvertFunc cs pgno g0 = Ok g1 \<longrightarrow>
      (convertline g1 = Some LINE_convertReverseLine
         \<longleftrightarrow> Duplex (header g0) \<and> odd pgno \<and> swap_image_x g0) \<and>
      (convertline g1 = Some LINE_convertLine
         \<longleftrightarrow> \<not> (Duplex (header g0) \<and> odd pgno \<and> swap_image_x g0))) \<and>
   (convertcspace g = Some f \<and> cupsBitsPerColor (header g) = 1 \<and> cupsNumColors (header g) = 1 \<and>
    mirrors_bits lib pixels (bytesPerLine g) \<longrightarrow>
      (\<exists>out. convertReverseLine lib g src dst buf row plane pixels = Ok out \<and>
         (\<forall>i<pixels. getbit out i
            = getbit (call_cspace (cspace_lib lib) f src buf row pixels) (pixels - 1 - i)))) \<and>
   (convertcspace g = Some f \<and> cupsBitsPerColor (header g) = 8 \<and>
    cupsColorOrder (header g) = CUPS_ORDER_CHUNKED \<and> pixels = cupsWidth (header g) \<and>
    pixels * cupsNumColors (header g) \<le> length (call_cspace (cspace_lib lib) f src buf row pixels) \<and>
    pixels * cupsNumColors (header g) \<le> length dst \<and>
    pixels * cupsNumColors (header g) < 4294967296 \<longrightarrow>
      (\<exists>out. convertReverseLine lib g src dst buf row plane pixels = Ok out \<and>
         length out = length dst \<and>
         (\<forall>i<pixels. \<forall>j<cupsNumColors (header g).
            out ! (i * cupsNumColors (header g) + j)
              = call_cspace (cspace_lib lib) f src buf row pixels
                  ! ((pixels - 1 - i) * cupsNumColors (header g) + j)))) \<and>
   (convertcspace g = Some f \<and>
    \<not> (cupsBitsPerColor (header g) = 1 \<and> cupsNumColors (header g) = 1) \<and>
    \<not> (cupsBitsPerColor (header g) = 8 \<and> cupsColorOrder (header g) = CUPS_ORDER_CHUNKED) \<and>
    numcolors g = int ncs \<and> pixels * ncs \<le> length src \<and> pixels * ncs < 4294967296 \<and>
    writes_pixels lib g plane pixels (length dst) readpixel val \<longrightarrow>
      (\<exists>out. convertReverseLine lib g src dst buf row plane pixels = Ok out \<and>
         (\<forall>i<pixels. readpixel out i
                        = val (reversed_pixel lib g f src row ((pixels - 1 - i) * ncs) i))))"
proof (intro conjI impI)
  assume "selectConvertFunc cs pgno g0 = Ok g1"
  from selectConvertFunc_convertline [OF this]
  show "convertline g1 = Some LINE_convertReverseLine
          \<longleftrightarrow> Duplex (header g0) \<and> odd pgno \<and> swap_image_x g0"
    and "convertline g1 = Some LINE_convertLine
          \<longleftrightarrow> \<not> (Duplex (header g0) \<and> odd pgno \<and> swap_image_x g0)"
    by simp_all
next
  assume a: "convertcspace g = Some f \<and> cupsBitsPerColor (header g) = 1 \<and>
             cupsNumColors (header g) = 1 \<and> mirrors_bits lib pixels (bytesPerLine g)"
  then have "convertReverseLine lib g src dst buf row plane pixels =
           Ok (reverseOneBitLine lib (call_cspace (cspace_lib lib) f src buf row pixels) dst
                 pixels (bytesPerLine g))"
    by (intro convertReverseLine_one_bit) simp_all
  with a show "\<exists>out. convertReverseLine lib g src dst buf row plane pixels = Ok out \<and>
         (\<forall>i<pixels. getbit out i
            = getbit (call_cspace (cspace_lib lib) f src buf row pixels) (pixels - 1 - i))"
    by (simp add: mirrors_bits_def)
next
  assume a: "convertcspace g = Some f \<and> cupsBitsPerColor (header g) = 8 \<and>
    cupsColorOrder (header g) = CUPS_ORDER_CHUNKED \<and> pixels = cupsWidth (header g) \<and>
    pixels * cupsNumColors (header g) \<le> length (call_cspace (cspace_lib lib) f src buf row pixels) \<and>
    pixels * cupsNumColors (header g) \<le> length dst \<and>
    pixels * cupsNumColors (header g) < 4294967296"
  show "\<exists>out. convertReverseLine lib g src dst buf row plane pixels = Ok out \<and>
         length out = length dst \<and>
         (\<forall>i<pixels. \<forall>j<cupsNumColors (header g).
            out ! (i * cupsNumColors (header g) + j)
              = call_cspace (cspace_lib lib) f src buf row pixels
                  ! ((pixels - 1 - i) * cupsNumColors (header g) + j))"
    by (rule convertReverseLine_chunked) (use a in blast)+
next
  assume a: "convertcspace g = Some f \<and>
    \<not> (cupsBitsPerColor (header g) = 1 \<and> cupsNumColors (header g) = 1) \<and>
    \<not> (cupsBitsPerColor (header g) = 8 \<and> cupsColorOrder (header g) = CUPS_ORDER_CHUNKED) \<and>
    numcolors g = int ncs \<and> pixels * ncs \<le> length src \<and> pixels * ncs < 4294967296 \<and>
    writes_pixels lib g plane pixels (length dst) readpixel val"
  show "\<exists>out. convertReverseLine lib g src dst buf row plane pixels = Ok out \<and>
         (\<forall>i<pixels. readpixel out i
                        = val (reversed_pixel lib g f src row ((pixels - 1 - i) * ncs) i))"
    by (rule convertReverseLine_general) (use a in blast)+
qed

lemma bit_horner_byte:
  assumes "n < 8"
  shows "bit (horner_sum of_bool 2 (map G [0..<8]) :: byte) n = G n"
proof -
  have "map G [0..<8] ! n = G ([0..<8] ! n)" using assms by (intro nth_map) simp
  also have "[0..<8] ! n = n" using nth_upt [of 0 n 8] assms by simp
  finally show ?thesis using assms by (simp add: bit_horner_sum_bit_word_iff)
qed

lemma getbit_mirror_bits:
  assumes "i < pixels" "pixels \<le> 8 * nbytes"
  shows "getbit (mirror_bits s pixels nbytes) i = getbit s (pixels - 1 - i)"
proof -
  let ?G = "\<lambda>k m. 8 * k + (7 - m) < pixels \<and> getbit s (pixels - 1 - (8 * k + (7 - m)))"
  have k: "i div 8 < nbytes" using assms by simp
  have n: "7 - i mod 8 < 8" by simp
  have e: "8 * (i div 8) + (7 - (7 - i mod 8)) = i"
  proof -
    have "i mod 8 < 8" by simp
    then have "7 - (7 - i mod 8) = i mod 8" by linarith
    then show ?thesis by simp
  qed
  have "mirror_bits s pixels nbytes ! (i div 8)
          = horner_sum of_bool 2 (map (?G (i div 8)) [0..<8])"
    using k by (simp add: mirror_bits_def)
  then have "getbit (mirror_bits s pixels nbytes) i
          = bit (horner_sum of_bool 2 (map (?G (i div 8)) [0..<8]) :: byte) (7 - i mod 8)"
    by (simp only: getbit_def)
  also have "\<dots> = ?G (i div 8) (7 - i mod 8)" by (rule bit_horner_byte [OF n])
  also have "\<dots> = getbit s (pixels - 1 - i)" using assms(1) by (simp only: e) simp
  finally show ?thesis .
qed

lemma demo_lib_mirrors: "pixels \<le> 8 * nbytes \<Longrightarrow> mirrors_bits demo_lib pixels nbytes"
  by (simp add: mirrors_bits_def demo_lib_def getbit_mirror_bits)

lemma demo_lib_writes:
  "writes_pixels demo_lib g plane pixels pixels (\<lambda>d i. d ! i) (\<lambda>pb. pb ! 0)"
  by (simp add: writes_pixels_def demo_lib_def)

theorem convertReverseLine_mirror_witness:
  "(\<exists>g1. selectConvertFunc ''/DeviceGray'' 1 demo_globals = Ok g1 \<and>
         convertline g1 = Some LINE_convertReverseLine) \<and>
   (\<exists>out. convertReverseLine demo_lib (demo_line_globals 1 1 CUPS_ORDER_CHUNKED 10 2)
             [176, 64] [0, 0] [] 0 0 10 = Ok out \<and>
          getbit out 0 = getbit [176, 64] 9 \<and> getbit out 9 = getbit [176, 64] 0) \<and>
   (\<exists>out. convertReverseLine demo_lib (demo_line_globals 8 3 CUPS_ORDER_CHUNKED 2 6)
             [1, 2, 3, 4, 5, 6] [0, 0, 0, 0, 0, 0] [] 0 0 2 = Ok out \<and>
          out ! 0 = 4 \<and> out ! 1 = 5 \<and> out ! 2 = 6 \<and> out ! 3 = 1 \<and> out ! 4 = 2 \<and> out ! 5 = 3) \<and>
   (\<exists>out. convertReverseLine demo_lib (demo_line_globals 8 1 CUPS_ORDER_BANDED 3 3)
             [1, 2, 3] [0, 0, 0] [] 0 0 3 = Ok out \<and>
          out ! 0 = 3 \<and> out ! 1 = 2 \<and> out ! 2 = 1)"
proof (intro conjI)
  have s: "selectConvertFunc ''/DeviceGray'' 1 demo_globals
             = Ok (demo_globals\<lparr>rowsize := 0, numcolors := 1,
                     convertcspace := Some convertcspaceNoop,
                     convertline := Some LINE_convertReverseLine\<rparr>)"
    by (simp add: selectConvertFunc_def select_cspace_def demo_globals_def demo_header_def
        s32_def Let_def)
  from convertReverseLine_mirror [THEN conjunct1, THEN mp, OF s] s
  show "\<exists>g1. selectConvertFunc ''/DeviceGray'' 1 demo_globals = Ok g1 \<and>
         convertline g1 = Some LINE_convertReverseLine"
    by (simp add: demo_globals_def demo_header_def)
next
  let ?g = "demo_line_globals 1 1 CUPS_ORDER_CHUNKED 10 2"
  have h: "convertcspace ?g = Some convertcspaceNoop" "cupsBitsPerColor (header ?g) = 1"
    "cupsNumColors (header ?g) = 1" "bytesPerLine ?g = 2"
    by (simp_all add: demo_line_globals_def demo_globals_def demo_header_def)
  have m: "mirrors_bits demo_lib 10 (bytesPerLine ?g)"
    unfolding h by (rule demo_lib_mirrors) simp
  from h m have c: "convertcspace ?g = Some convertcspaceNoop \<and>
      cupsBitsPerColor (header ?g) = 1 \<and> cupsNumColors (header ?g) = 1 \<and>
      mirrors_bits demo_lib 10 (bytesPerLine ?g)"
    by simp
  from convertReverseLine_mirror [of _ _ _ _ ?g convertcspaceNoop demo_lib 10 "[176, 64]"
      "[0, 0]" "[]" 0 0, THEN conjunct2, THEN conjunct1, THEN mp, OF c]
  obtain out where
    o: "convertReverseLine demo_lib ?g [176, 64] [0, 0] [] 0 0 10 = Ok out"
    and p: "\<forall>i<10. getbit out i
              = getbit (call_cspace (cspace_lib demo_lib) convertcspaceNoop [176, 64] [] 0 10)
                  (10 - 1 - i)"
    by blast
  from p have "getbit out 0 = getbit [176, 64] 9" "getbit out 9 = getbit [176, 64] 0"
    by (simp_all add: call_cspace_def)
  with o show "\<exists>out. convertReverseLine demo_lib ?g [176, 64] [0, 0] [] 0 0 10 = Ok out \<and>
          getbit out 0 = getbit [176, 64] 9 \<and> getbit out 9 = getbit [176, 64] 0"
    by blast
next
  let ?g = "demo_line_globals 8 3 CUPS_ORDER_CHUNKED 2 6"
  have h: "convertcspace ?g = Some convertcspaceNoop" "cupsBitsPerColor (header ?g) = 8"
    "cupsNumColors (header ?g) = 3" "cupsColorOrder (header ?g) = CUPS_ORDER_CHUNKED"
    "cupsWidth (header ?g) = 2"
    by (simp_all add: demo_line_globals_def demo_globals_def demo_header_def)
  from h have c: "convertcspace ?g = Some convertcspaceNoop \<and>
      cupsBitsPerColor (header ?g) = 8 \<and>
      cupsColorOrder (header ?g) = CUPS_ORDER_CHUNKED \<and> 2 = cupsWidth (header ?g) \<and>
      2 * cupsNumColors (header ?g)
        \<le> length (call_cspace (cspace_lib demo_lib) convertcspaceNoop [1, 2, 3, 4, 5, 6 :: byte] [] 0 2) \<and>
      2 * cupsNumColors (header ?g) \<le> length [0, 0, 0, 0, 0, 0 :: byte] \<and>
      2 * cupsNumColors (header ?g) < 4294967296"
    by (simp add: call_cspace_def)
  from convertReverseLine_mirror [of _ _ _ _ ?g convertcspaceNoop demo_lib 2 "[1, 2, 3, 4, 5, 6]"
      "[0, 0, 0, 0, 0, 0]" "[]" 0 0, THEN conjunct2, THEN conjunct2, THEN conjunct1, THEN mp, OF c] h
  obtain out where
    o: "convertReverseLine demo_lib ?g [1, 2, 3, 4, 5, 6] [0, 0, 0, 0, 0, 0] [] 0 0 2 = Ok out"
    and p: "\<forall>i<2. \<forall>j<3. out ! (i * 3 + j) = [1, 2, 3, 4, 5, 6 :: byte] ! ((2 - 1 - i) * 3 + j)"
    by (auto simp: call_cspace_def)
  have "out ! (i * 3 + j) = [1, 2, 3, 4, 5, 6 :: byte] ! ((2 - 1 - i) * 3 + j)"
    if "i < 2" "j < 3" for i j
    using p that by blast
  from this [of 0 0] this [of 0 1] this [of 0 2] this [of 1 0] this [of 1 1] this [of 1 2] o
  show "\<exists>out. convertReverseLine demo_lib ?g [1, 2, 3, 4, 5, 6] [0, 0, 0, 0, 0, 0] [] 0 0 2 = Ok out \<and>
          out ! 0 = 4 \<and> out ! 1 = 5 \<and> out ! 2 = 6 \<and> out ! 3 = 1 \<and> out ! 4 = 2 \<and> out ! 5 = 3"
    by (simp add: numeral_2_eq_2)
next
  let ?g = "demo_line_globals 8 1 CUPS_ORDER_BANDED 3 3"
  have h: "convertcspace ?g = Some convertcspaceNoop" "cupsBitsPerColor (header ?g) = 8"
    "cupsNumColors (header ?g) = 1" "cupsColorOrder (header ?g) = CUPS_ORDER_BANDED"
    "numcolors ?g = int 1"
    by (simp_all add: demo_line_globals_def demo_globals_def demo_header_def)
  have w: "writes_pixels demo_lib ?g 0 3 (length [0, 0, 0 :: byte]) (\<lambda>d i. d ! i) (\<lambda>pb. pb ! 0)"
    using demo_lib_writes [of ?g 0 3] by (simp add: numeral_3_eq_3)
  from h w have c: "convertcspace ?g = Some convertcspaceNoop \<and>
      \<not> (cupsBitsPerColor (header ?g) = 1 \<and> cupsNumColors (header ?g) = 1) \<and>
      \<not> (cupsBitsPerColor (header ?g) = 8 \<and> cupsColorOrder (header ?g) = CUPS_ORDER_CHUNKED) \<and>
      numcolors ?g = int 1 \<and> 3 * 1 \<le> length [1, 2, 3 :: byte] \<and> 3 * 1 < (4294967296 :: nat) \<and>
      writes_pixels demo_lib ?g 0 3 (length [0, 0, 0 :: byte]) (\<lambda>d i. d ! i) (\<lambda>pb. pb ! 0)"
    by simp
  from convertReverseLine_mirror [of _ _ _ _ ?g convertcspaceNoop demo_lib 3 "[1, 2, 3]"
      "[0, 0, 0]" "[]" 0 0 1 "\<lambda>d i. d ! i" "\<lambda>pb. pb ! 0",
      THEN conjunct2, THEN conjunct2, THEN conjunct2, THEN mp, OF c]
  obtain out where
    o: "convertReverseLine demo_lib ?g [1, 2, 3] [0, 0, 0] [] 0 0 3 = Ok out"
    and p: "\<forall>i<3. out ! i
              = reversed_pixel demo_lib ?g convertcspaceNoop [1, 2, 3] 0 ((3 - 1 - i) * 1) i ! 0"
    by auto
  have "out ! i = reversed_pixel demo_lib ?g convertcspaceNoop [1, 2, 3] 0 ((3 - 1 - i) * 1) i ! 0"
    if "i < 3" for i
    using p that by blast
  from this [of 0] this [of 1] this [of 2] o
  show "\<exists>out. convertReverseLine demo_lib ?g [1, 2, 3] [0, 0, 0] [] 0 0 3 = Ok out \<and>
          out ! 0 = 3 \<and> out ! 1 = 2 \<and> out ! 2 = 1"
    by (simp add: reversed_pixel_def call_cspace_def demo_lib_def numeral_2_eq_2)
qed

end
